theory Spec2Isabelle
  imports Main "HOL-Library.Word" "HOL-Library.Signed_Division"
begin

section \<open>Dorfl: the curtain/blinds controller of \<open>Dorfl.ino\<close>\<close>

text \<open>
  The firmware runs on an ESP8285, where \<open>int\<close>, \<open>long\<close> and \<open>unsigned long\<close>
  are 32 bits wide.  Every integer global of the sketch is a \<open>32 word\<close>: \<open>+\<close> and
  \<open>-\<close> wrap as the machine does, unsigned comparisons are the order of the word type
  and signed ones go through \<open>sint\<close>.

  The globals of the sketch are the fields of one record that every function takes and
  returns.  \<open>millis()\<close> is an input: each handler is given the clock value \<open>now\<close> of
  the loop pass in which it runs.  The pin levels of the two relays are fields of the
  record as well, and three fields record what leaves the controller: every level pair
  the relay pins went through (\<open>relayLog\<close>), every status message handed to the MQTT
  client (\<open>published\<close>) and the number of calls of
  \<open>wifiManager.startConfigPortal\<close> (\<open>configPortalStarts\<close>).

  The settings \<open>blindMaxPos\<close>, \<open>blindInvertZero\<close>, \<open>blindInvertSwitch\<close> and
  \<open>blindDisableManualLock\<close> are read at boot and stay as they are for the whole run:
  \<open>saveParamsCallback\<close>, which rewrites them and then asks for a restart, belongs to the
  provisioning portal and is not part of the model, as are the LED, the WiFi connection
  and the MQTT transport (of which only the two flags read by \<open>mqttCommunicate\<close> are
  kept).
\<close>

subsection \<open>State\<close>

type_synonym ulong = "32 word"

datatype pin = RELAY_L1 | RELAY_L2

definition SWITCH_S1 :: "32 word" where "SWITCH_S1 = 4"
definition SWITCH_S2 :: "32 word" where "SWITCH_S2 = 5"
definition MANUAL_LOCK_MIN_DELAY_MS :: ulong where "MANUAL_LOCK_MIN_DELAY_MS = 200"
definition MANUAL_LOCK_MAX_DELAY_MS :: ulong where "MANUAL_LOCK_MAX_DELAY_MS = 500"
definition MANUAL_SETUP_COUNTER :: "32 word" where "MANUAL_SETUP_COUNTER = 5"

record dorfl =
  blindMaxPos :: ulong
  blindInvertZero :: bool
  blindInvertSwitch :: bool
  blindDisableManualLock :: bool
  blindPos :: "32 word" \<comment> \<open>\<open>long\<close>: read with \<open>sint\<close>\<close>
  manualMode :: bool
  manualLocked :: bool
  manualLockActivatorTime :: ulong
  manualLockActivatorSwitch :: "32 word"
  manualSetupModeCounter :: "32 word"
  movementStartTime :: ulong
  movementTimeout :: ulong
  movementL1 :: bool
  movementProgress :: bool
  wifiManagerSetupRunning :: bool
  offline :: bool
  mqttConnected :: bool \<comment> \<open>\<open>mqttClient.connected()\<close>\<close>
  relayL1 :: bool \<comment> \<open>level of pin \<open>RELAY_L1\<close>, \<open>True\<close> is \<open>HIGH\<close>\<close>
  relayL2 :: bool
  relayLog :: "(bool \<times> bool) list"
  published :: "string list"
  configPortalStarts :: nat

subsection \<open>Status Publisher\<close>

definition digit_char :: "nat \<Rightarrow> char" where
  "digit_char n = ''0123456789'' ! n"

fun utoa :: "nat \<Rightarrow> string" where
  "utoa n = (if n < 10 then [digit_char n] else utoa (n div 10) @ [digit_char (n mod 10)])"

declare utoa.simps [simp del]

text \<open>\<open>ltoa(v, buf, 10)\<close>: the decimal digits, after a minus sign for a negative value.\<close>

definition ltoa :: "int \<Rightarrow> string" where
  "ltoa k = (if k < 0 then CHR ''-'' # utoa (nat (- k)) else utoa (nat k))"

text \<open>
  \<open>mqttCommunicate\<close>: \<open>blindPos / 1000\<close> is C's division of a \<open>long\<close>, which truncates
  towards zero (\<open>sdiv\<close>).
\<close>

definition mqttCommunicate :: "dorfl \<Rightarrow> dorfl" where
  "mqttCommunicate s =
     (if \<not> offline s \<and> mqttConnected s
      then s\<lparr>published := published s @
             [ltoa (sint (blindPos s) sdiv 1000) @ (if manualMode s then ''.'' else [])]\<rparr>
      else s)"

subsection \<open>Position Model and Relay Driver\<close>

definition digitalWrite :: "pin \<Rightarrow> bool \<Rightarrow> dorfl \<Rightarrow> dorfl" where
  "digitalWrite p v s =
     (case p of
        RELAY_L1 \<Rightarrow> s\<lparr>relayL1 := v, relayLog := relayLog s @ [(v, relayL2 s)]\<rparr>
      | RELAY_L2 \<Rightarrow> s\<lparr>relayL2 := v, relayLog := relayLog s @ [(relayL1 s, v)]\<rparr>)"

text \<open>
  \<open>updateBlindPos\<close>: \<open>blindPos += moved\<close> adds an \<open>unsigned long\<close> to a \<open>long\<close>, a
  wrapping addition of the two bit patterns.  \<open>blindPos < 0\<close> is a signed comparison;
  \<open>blindPos > blindMaxPos\<close> compares a \<open>long\<close> with an \<open>unsigned long\<close> and is
  therefore unsigned.
\<close>

definition updateBlindPos :: "ulong \<Rightarrow> dorfl \<Rightarrow> dorfl" where
  "updateBlindPos now s =
     (let moved = now - movementStartTime s;
          p = (if movementL1 s
               then (if blindInvertZero s then blindPos s + moved else blindPos s - moved)
               else (if blindInvertZero s then blindPos s - moved else blindPos s + moved));
          p' = (if sint p < 0 then 0
                else if blindMaxPos s < p then blindMaxPos s
                else p)
      in mqttCommunicate (s\<lparr>blindPos := p'\<rparr>))"

definition stopL1 :: "ulong \<Rightarrow> dorfl \<Rightarrow> dorfl" where
  "stopL1 now s =
     (let s1 = digitalWrite RELAY_L1 False s
      in if movementProgress s1 \<and> movementL1 s1
         then updateBlindPos now (s1\<lparr>movementProgress := False\<rparr>)
         else s1)"

definition stopL2 :: "ulong \<Rightarrow> dorfl \<Rightarrow> dorfl" where
  "stopL2 now s =
     (let s1 = digitalWrite RELAY_L2 False s
      in if movementProgress s1 \<and> \<not> movementL1 s1
         then updateBlindPos now (s1\<lparr>movementProgress := False\<rparr>)
         else s1)"

definition startL1 :: "ulong \<Rightarrow> ulong \<Rightarrow> dorfl \<Rightarrow> dorfl" where
  "startL1 now timeout s =
     (let s1 = stopL2 now s;
          s2 = digitalWrite RELAY_L1 True s1
      in s2\<lparr>movementProgress := True, movementL1 := True, movementStartTime := now,
            movementTimeout := (if timeout = 0 then blindMaxPos s2 else timeout)\<rparr>)"

definition startL2 :: "ulong \<Rightarrow> ulong \<Rightarrow> dorfl \<Rightarrow> dorfl" where
  "startL2 now timeout s =
     (let s1 = stopL1 now s;
          s2 = digitalWrite RELAY_L2 True s1
      in s2\<lparr>movementProgress := True, movementL1 := False, movementStartTime := now,
            movementTimeout := (if timeout = 0 then blindMaxPos s2 else timeout)\<rparr>)"

subsection \<open>Movement Supervisor\<close>

definition movementLoop :: "ulong \<Rightarrow> dorfl \<Rightarrow> dorfl" where
  "movementLoop now s =
     (if movementProgress s \<and> movementTimeout s \<le> now - movementStartTime s
      then stopL2 now (stopL1 now s)
      else s)"

subsection \<open>Provisioning collaborator\<close>

text \<open>
  \<open>startWifiManager\<close>: nothing happens while the portal runs.  Otherwise an on-demand
  call reaches \<open>wifiManager.startConfigPortal\<close>; the boot call (\<open>onDemand\<close> false)
  loads the settings, which \<open>setup_sketch\<close> below takes as its arguments, and connects.
  \<open>wifiManagerSetupStarted\<close> is the callback by which the WiFiManager library reports
  that the portal is up.
\<close>

definition startWifiManager :: "bool \<Rightarrow> dorfl \<Rightarrow> dorfl" where
  "startWifiManager onDemand s =
     (if wifiManagerSetupRunning s then s
      else if onDemand then s\<lparr>configPortalStarts := configPortalStarts s + 1\<rparr>
      else s)"

definition wifiManagerSetupStarted :: "dorfl \<Rightarrow> dorfl" where
  "wifiManagerSetupStarted s = s\<lparr>wifiManagerSetupRunning := True\<rparr>"

subsection \<open>Manual Switch Arbiter\<close>

text \<open>
  The three branches of \<open>gpioLoop\<close> under the debounce guard, each with the value
  \<open>d\<close> of \<open>manualActivatorDelay\<close>: switch S1 asserted (lines 248 to 272), switch S2
  asserted (lines 274 to 298), neither asserted (lines 300 to 321).
\<close>

definition gpioS1 :: "ulong \<Rightarrow> ulong \<Rightarrow> dorfl \<Rightarrow> dorfl" where
  "gpioS1 now d s =
     (let sb = (if manualLockActivatorSwitch s \<noteq> SWITCH_S1
                then s\<lparr>manualSetupModeCounter := 0\<rparr> else s);
          sc = (if \<not> blindDisableManualLock sb \<and> \<not> manualLocked sb
                   \<and> d < MANUAL_LOCK_MAX_DELAY_MS \<and> manualSetupModeCounter sb = 1
                then mqttCommunicate (sb\<lparr>manualLocked := True, manualMode := True\<rparr>)
                else sb)
      in if \<not> manualLocked sc
         then (let sd = sc\<lparr>manualLockActivatorSwitch := SWITCH_S1\<rparr>
               in if \<not> manualMode sd
                  then (let se = mqttCommunicate
                                   (sd\<lparr>manualMode := True, manualLockActivatorTime := now\<rparr>)
                        in if blindInvertSwitch se
                           then (if \<not> movementProgress se \<or> movementL1 se
                                 then startL2 now 0 se else se)
                           else (if \<not> movementProgress se \<or> \<not> movementL1 se
                                 then startL1 now 0 se else se))
                  else sd)
         else sc)"

definition gpioS2 :: "ulong \<Rightarrow> ulong \<Rightarrow> dorfl \<Rightarrow> dorfl" where
  "gpioS2 now d s =
     (let sb = (if manualLockActivatorSwitch s = SWITCH_S1
                then s\<lparr>manualSetupModeCounter := 0\<rparr> else s);
          sc = (if \<not> blindDisableManualLock sb \<and> \<not> manualLocked sb
                   \<and> d < MANUAL_LOCK_MAX_DELAY_MS \<and> manualSetupModeCounter sb = 1
                then mqttCommunicate (sb\<lparr>manualLocked := True, manualMode := True\<rparr>)
                else sb)
      in if \<not> manualLocked sc
         then (let sd = sc\<lparr>manualLockActivatorSwitch := SWITCH_S2\<rparr>
               in if \<not> manualMode sd
                  then (let se = mqttCommunicate
                                   (sd\<lparr>manualMode := True, manualLockActivatorTime := now\<rparr>)
                        in if blindInvertSwitch se
                           then (if \<not> movementProgress se \<or> \<not> movementL1 se
                                 then startL1 now 0 se else se)
                           else (if \<not> movementProgress se \<or> movementL1 se
                                 then startL2 now 0 se else se))
                  else sd)
         else sc)"

definition gpioReleased :: "ulong \<Rightarrow> ulong \<Rightarrow> dorfl \<Rightarrow> dorfl" where
  "gpioReleased now d s =
     (let sb =
        (if manualMode s
         then (let sc = (if d < MANUAL_LOCK_MAX_DELAY_MS
                         then (let s' = s\<lparr>manualSetupModeCounter :=
                                            manualSetupModeCounter s + 1\<rparr>
                               in if manualSetupModeCounter s' = MANUAL_SETUP_COUNTER
                                  then startWifiManager True s' else s')
                         else s\<lparr>manualSetupModeCounter := 0\<rparr>);
                   sd = sc\<lparr>manualMode := False, manualLockActivatorTime := now\<rparr>
               in if manualLocked sd then mqttCommunicate sd
                  else if movementProgress sd then stopL2 now (stopL1 now sd)
                  else mqttCommunicate sd)
         else s)
      in sb\<lparr>manualLocked := False\<rparr>)"

text \<open>
  \<open>gpioLoop\<close>, with the three inputs it reads: \<open>button\<close>, \<open>s1\<close> and \<open>s2\<close> are true when
  the pin reads \<open>LOW\<close>, that is when the button or switch is asserted.
\<close>

definition gpioLoop :: "ulong \<Rightarrow> bool \<Rightarrow> bool \<Rightarrow> bool \<Rightarrow> dorfl \<Rightarrow> dorfl" where
  "gpioLoop now button s1 s2 s =
     (let sa = (if button then startWifiManager True s else s);
          manualActivatorDelay = now - manualLockActivatorTime sa
      in if MANUAL_LOCK_MIN_DELAY_MS < manualActivatorDelay
         then (if s1 then gpioS1 now manualActivatorDelay sa
               else if s2 then gpioS2 now manualActivatorDelay sa
               else gpioReleased now manualActivatorDelay sa)
         else sa)"

subsection \<open>Command Interpreter\<close>

definition isspace :: "char \<Rightarrow> bool" where
  "isspace c \<longleftrightarrow> c \<in> set [CHR '' '', CHR 0x09, CHR 0x0A, CHR 0x0B, CHR 0x0C, CHR 0x0D]"

definition digit_val :: "char \<Rightarrow> nat option" where
  "digit_val c =
     map_of [(CHR ''0'', 0), (CHR ''1'', 1), (CHR ''2'', 2), (CHR ''3'', 3), (CHR ''4'', 4),
             (CHR ''5'', 5), (CHR ''6'', 6), (CHR ''7'', 7), (CHR ''8'', 8), (CHR ''9'', 9)] c"

fun atoi_digits :: "int \<Rightarrow> string \<Rightarrow> int" where
  "atoi_digits acc [] = acc"
| "atoi_digits acc (c # cs) =
     (case digit_val c of
        Some v \<Rightarrow> atoi_digits (acc * 10 + int v) cs
      | None \<Rightarrow> acc)"

text \<open>
  \<open>atoi\<close>: leading white space, an optional sign, then the longest run of digits; 0 when
  there is none.  The value is exact for the at most six characters that follow the
  three-letter prefix in \<open>payloadCopy\<close>.
\<close>

definition atoi :: "string \<Rightarrow> int" where
  "atoi str =
     (case dropWhile isspace str of
        [] \<Rightarrow> 0
      | c # cs \<Rightarrow>
          if c = CHR ''-'' then - atoi_digits 0 cs
          else if c = CHR ''+'' then atoi_digits 0 cs
          else atoi_digits 0 (c # cs))"

definition autoMoveToPos :: "ulong \<Rightarrow> 32 word \<Rightarrow> dorfl \<Rightarrow> dorfl" where
  "autoMoveToPos now newPos s =
     (if \<not> manualMode s
      then (let deltaMove = newPos - blindPos s
            in if blindInvertZero s
               then (if 0 < sint deltaMove then startL1 now deltaMove s
                     else if sint deltaMove < 0 then startL2 now (- deltaMove) s
                     else s)
               else (if 0 < sint deltaMove then startL2 now deltaMove s
                     else if sint deltaMove < 0 then startL1 now (- deltaMove) s
                     else s))
      else s)"

text \<open>
  The command string of \<open>mqttCallback\<close>: at most nine bytes of the payload are copied,
  and the \<open>String\<close> built from the copy ends at its first NUL byte.
\<close>

definition cmd_of :: "string \<Rightarrow> string" where
  "cmd_of payload = takeWhile (\<lambda>c. c \<noteq> CHR 0x00) (take 9 payload)"

definition startsWith :: "string \<Rightarrow> string \<Rightarrow> bool" where
  "startsWith str pre \<longleftrightarrow> take (length pre) str = pre"

definition mqttCallback :: "ulong \<Rightarrow> string \<Rightarrow> dorfl \<Rightarrow> dorfl" where
  "mqttCallback now payload s =
     (let cmd = cmd_of payload
      in if startsWith cmd ''set'' then startWifiManager True s
         else if startsWith cmd ''mva''
         then (let s1 = (if movementProgress s \<and> \<not> manualMode s
                         then stopL2 now (stopL1 now s) else s);
                   absPos = (word_of_int (atoi (drop 3 cmd)) :: 32 word);
                   newPos = absPos * 1000
               in autoMoveToPos now newPos s1)
         else if startsWith cmd ''mvr''
         then (let s1 = (if movementProgress s \<and> \<not> manualMode s
                         then stopL2 now (stopL1 now s) else s);
                   relPos = (word_of_int (atoi (drop 3 cmd)) :: 32 word);
                   newPos = blindPos s1 + relPos * 1000
               in autoMoveToPos now newPos s1)
         else s)"

subsection \<open>Boot and the reachable states\<close>

text \<open>
  \<open>setup_sketch\<close> is the sketch's \<open>setup()\<close>: the globals start from their initialisers (zero where there is none, and
  both relay pins low out of reset), the settings are the ones loaded from the
  configuration file, \<open>manualLocked\<close> is set when a switch is asserted at boot, and both
  relays are written low.
\<close>

definition power_on :: "ulong \<Rightarrow> bool \<Rightarrow> bool \<Rightarrow> bool \<Rightarrow> dorfl" where
  "power_on maxPos invertZero invertSwitch disableManualLock =
     \<lparr>blindMaxPos = maxPos, blindInvertZero = invertZero, blindInvertSwitch = invertSwitch,
      blindDisableManualLock = disableManualLock, blindPos = 0,
      manualMode = False, manualLocked = False, manualLockActivatorTime = 0,
      manualLockActivatorSwitch = 0, manualSetupModeCounter = 0,
      movementStartTime = 0, movementTimeout = 0, movementL1 = False,
      movementProgress = False, wifiManagerSetupRunning = False,
      offline = True, mqttConnected = False, relayL1 = False, relayL2 = False,
      relayLog = [], published = [], configPortalStarts = 0\<rparr>"

definition setup_sketch :: "ulong \<Rightarrow> bool \<Rightarrow> bool \<Rightarrow> bool \<Rightarrow> ulong \<Rightarrow> bool \<Rightarrow> bool \<Rightarrow> dorfl" where
  "setup_sketch maxPos invertZero invertSwitch disableManualLock now s1 s2 =
     (let s = (power_on maxPos invertZero invertSwitch disableManualLock)
                \<lparr>manualLocked := s1 \<or> s2, manualSetupModeCounter := 0\<rparr>
      in startWifiManager False (stopL2 now (stopL1 now s)))"

text \<open>
  The states the controller can be in: the state after \<open>setup_sketch\<close>, and from there any
  handler of the control loop, at any clock value and on any input; the network coming
  and going; the portal reporting that it started.
\<close>

inductive reachable :: "dorfl \<Rightarrow> bool" where
  boot: "reachable (setup_sketch maxPos iz isw dml now s1 s2)"
| gpio: "reachable s \<Longrightarrow> reachable (gpioLoop now button s1 s2 s)"
| movement: "reachable s \<Longrightarrow> reachable (movementLoop now s)"
| mqtt: "reachable s \<Longrightarrow> reachable (mqttCallback now payload s)"
| link: "reachable s \<Longrightarrow> reachable (s\<lparr>offline := off, mqttConnected := con\<rparr>)"
| portal: "reachable s \<Longrightarrow> reachable (wifiManagerSetupStarted s)"

section \<open>Properties\<close>

subsection \<open>Predicates and runs used in the statements\<close>

definition relay_ok :: "dorfl \<Rightarrow> bool" where
  "relay_ok s \<longleftrightarrow>
     \<not> (relayL1 s \<and> relayL2 s) \<and> list_all (\<lambda>(a, b). \<not> (a \<and> b)) (relayLog s)"

definition pos_ok :: "dorfl \<Rightarrow> bool" where
  "pos_ok s \<longleftrightarrow> 0 \<le> sint (blindPos s) \<and> sint (blindPos s) \<le> uint (blindMaxPos s)"

definition status_ok :: "ulong \<Rightarrow> string \<Rightarrow> bool" where
  "status_ok m msg \<longleftrightarrow>
     (\<exists>p \<in> {0 .. uint m div 1000}. msg = ltoa p \<or> msg = ltoa p @ ''.'')"

definition pos_inv :: "dorfl \<Rightarrow> bool" where
  "pos_inv s \<longleftrightarrow> pos_ok s \<and> list_all (status_ok (blindMaxPos s)) (published s)"

text \<open>
  Runs from boot with \<open>blindMaxPos\<close> 60000, no inversion and the MQTT link up.  In
  \<open>run_remote\<close> the command \<open>mva30\<close> arrives at 1000 ms and switch S1 is pressed at
  5000 ms.  In \<open>run_overshoot\<close> the command \<open>mva61\<close> arrives at 1000 ms and the
  movement loop runs at 62010 ms.  In \<open>run_half\<close> the command \<open>mva30\<close> arrives at
  1000 ms and the movement loop runs at 31000 ms.
\<close>

definition boot_online :: dorfl where
  "boot_online =
     (setup_sketch 60000 False False False 0 False False)\<lparr>offline := False, mqttConnected := True\<rparr>"

definition run_remote :: dorfl where
  "run_remote = gpioLoop 5000 False True False (mqttCallback 1000 ''mva30'' boot_online)"

definition run_overshoot :: dorfl where
  "run_overshoot = movementLoop 62010 (mqttCallback 1000 ''mva61'' boot_online)"

definition run_half :: dorfl where
  "run_half = movementLoop 31000 (mqttCallback 1000 ''mva30'' boot_online)"

definition same_movement :: "dorfl \<Rightarrow> dorfl \<Rightarrow> bool" where
  "same_movement s t \<longleftrightarrow>
     movementProgress s = movementProgress t \<and> movementL1 s = movementL1 t
     \<and> movementStartTime s = movementStartTime t \<and> movementTimeout s = movementTimeout t
     \<and> blindPos s = blindPos t \<and> published s = published t"

text \<open>
  The tap counter is only ever non-zero, and manual mode only ever on, after a press
  recorded which switch it came from.
\<close>

definition counter_inv :: "dorfl \<Rightarrow> bool" where
  "counter_inv s \<longleftrightarrow>
     (manualSetupModeCounter s \<noteq> 0 \<or> manualMode s \<longrightarrow>
      manualLockActivatorSwitch s = SWITCH_S1 \<or> manualLockActivatorSwitch s = SWITCH_S2)"

text \<open>
  One pass of the control loop in which no command arrives and the pairing button is
  not pressed: \<open>loop()\<close> runs \<open>gpioLoop\<close>, then \<open>movementLoop\<close>.  \<open>passes\<close> is a
  sequence of such passes, all with the same switch inputs, at the given clock values,
  and \<open>polls a b\<close> are the clock values \<open>a + 10\<close>, \<open>a + 20\<close>, ... below \<open>b\<close> of a
  loop that comes round every \<open>LOOP_DELAY_MS\<close>.
\<close>

definition loop_pass :: "ulong \<Rightarrow> bool \<Rightarrow> bool \<Rightarrow> dorfl \<Rightarrow> dorfl" where
  "loop_pass now s1 s2 s = movementLoop now (gpioLoop now False s1 s2 s)"

fun passes :: "bool \<Rightarrow> bool \<Rightarrow> ulong list \<Rightarrow> dorfl \<Rightarrow> dorfl" where
  "passes s1 s2 [] s = s"
| "passes s1 s2 (t # ts) s = passes s1 s2 ts (loop_pass t s1 s2 s)"

definition polls :: "ulong \<Rightarrow> ulong \<Rightarrow> ulong list" where
  "polls a b = map (\<lambda>k. a + 10 * of_nat k) [1 ..< unat ((b - a) div 10)]"

text \<open>
  A tap \<open>(p, held, r, idle)\<close> on a switch (S1 when \<open>onS1\<close>, else S2): the pass at time
  \<open>p\<close> is the first to see the switch asserted, the passes at the times \<open>held\<close> see it
  still asserted, the pass at time \<open>r\<close> is the first to see both switches released and
  the passes at the times \<open>idle\<close> see them still released.  The tap is quick when the
  pass at \<open>p\<close> and the pass at \<open>r\<close> are beyond the debounce delay and the pass at \<open>r\<close>
  comes less than \<open>MANUAL_LOCK_MAX_DELAY_MS\<close> after the activator time that the press
  left behind.
\<close>

type_synonym tap_times = "ulong \<times> ulong list \<times> ulong \<times> ulong list"

fun tap :: "bool \<Rightarrow> tap_times \<Rightarrow> dorfl \<Rightarrow> dorfl" where
  "tap onS1 (p, held, r, idle) s =
     passes False False idle
       (loop_pass r False False
          (passes onS1 (\<not> onS1) held (loop_pass p onS1 (\<not> onS1) s)))"

fun quick_tap :: "bool \<Rightarrow> tap_times \<Rightarrow> dorfl \<Rightarrow> bool" where
  "quick_tap onS1 (p, held, r, idle) s \<longleftrightarrow>
     MANUAL_LOCK_MIN_DELAY_MS < p - manualLockActivatorTime s
     \<and> MANUAL_LOCK_MIN_DELAY_MS
          < r - manualLockActivatorTime (loop_pass p onS1 (\<not> onS1) s)
     \<and> r - manualLockActivatorTime (loop_pass p onS1 (\<not> onS1) s)
          < MANUAL_LOCK_MAX_DELAY_MS"

fun taps :: "bool \<Rightarrow> tap_times list \<Rightarrow> dorfl \<Rightarrow> dorfl" where
  "taps onS1 [] s = s"
| "taps onS1 (tp # tps) s = taps onS1 tps (tap onS1 tp s)"

fun quick_taps :: "bool \<Rightarrow> tap_times list \<Rightarrow> dorfl \<Rightarrow> bool" where
  "quick_taps onS1 [] s \<longleftrightarrow> True"
| "quick_taps onS1 (tp # tps) s \<longleftrightarrow> quick_tap onS1 tp s \<and> quick_taps onS1 tps (tap onS1 tp s)"

text \<open>
  \<open>tap_at p r n\<close> is the tap pressed at \<open>p\<close> and released at \<open>r\<close>, polled every 10 ms
  until the next press at \<open>n\<close>.  \<open>taps_quick\<close>: five taps with every press held for at
  most 300 ms, the second one a lock press released 450 ms after the first release.
  \<open>taps_held\<close>: five taps with every press held for 300 ms and every release-to-press
  gap 300 ms.
\<close>

definition tap_at :: "ulong \<Rightarrow> ulong \<Rightarrow> ulong \<Rightarrow> tap_times" where
  "tap_at p r n = (p, polls p r, r, polls r n)"

definition taps_quick :: "tap_times list" where
  "taps_quick = [tap_at 1000 1300 1600, tap_at 1600 1750 2050, tap_at 2050 2350 2650,
                 tap_at 2650 2950 3250, tap_at 3250 3550 3850]"

definition taps_held :: "tap_times list" where
  "taps_held = [tap_at 1000 1300 1600, tap_at 1600 1900 2200, tap_at 2200 2500 2800,
                tap_at 2800 3100 3400, tap_at 3400 3700 4000]"

text \<open>
  \<open>run_tap1\<close>: one tap on S1 from boot, pressed at 1000 ms and released at 1300 ms,
  polled every 10 ms.  After it, still polled every 10 ms: the command \<open>mva60\<close> arriving
  at 1400 ms with the switches released until 1600 ms (\<open>run_tap1_remote\<close>) and S1
  seen pressed again at 1600 ms (\<open>run_tap1_locked\<close>); or the
  switches released until 2500 ms (\<open>run_tap1_idle\<close>), then S1 pressed at 2500 ms and
  held until 2800 ms (\<open>run_tap1_press\<close>).
\<close>

definition run_tap1 :: dorfl where
  "run_tap1 = tap True (tap_at 1000 1300 1400) boot_online"

definition run_tap1_remote :: dorfl where
  "run_tap1_remote =
     passes False False (polls 1400 1600) (mqttCallback 1400 ''mva60'' run_tap1)"

definition run_tap1_locked :: dorfl where
  "run_tap1_locked = gpioLoop 1600 False True False run_tap1_remote"

definition run_tap1_idle :: dorfl where
  "run_tap1_idle = passes False False (1400 # polls 1400 2500) run_tap1"

definition run_tap1_press :: dorfl where
  "run_tap1_press = passes True False (2500 # polls 2500 2800) run_tap1_idle"

text \<open>
  A numeric payload with no number in it: after the white space and the optional sign
  that \<open>atoi\<close> skips, the string ends or goes on with a character that is not a digit.
\<close>

definition malformed_number :: "string \<Rightarrow> bool" where
  "malformed_number str \<longleftrightarrow>
     (case dropWhile isspace str of
        [] \<Rightarrow> True
      | c # cs \<Rightarrow>
          if c = CHR ''-'' \<or> c = CHR ''+''
          then (case cs of [] \<Rightarrow> True | d # ds \<Rightarrow> digit_val d = None)
          else digit_val c = None)"


subsection \<open>What each function leaves alone\<close>

lemma mqttCommunicate_fields [simp]:
  "blindMaxPos (mqttCommunicate s) = blindMaxPos s"
  "blindInvertZero (mqttCommunicate s) = blindInvertZero s"
  "blindInvertSwitch (mqttCommunicate s) = blindInvertSwitch s"
  "blindDisableManualLock (mqttCommunicate s) = blindDisableManualLock s"
  "blindPos (mqttCommunicate s) = blindPos s"
  "manualMode (mqttCommunicate s) = manualMode s"
  "manualLocked (mqttCommunicate s) = manualLocked s"
  "manualLockActivatorTime (mqttCommunicate s) = manualLockActivatorTime s"
  "manualLockActivatorSwitch (mqttCommunicate s) = manualLockActivatorSwitch s"
  "manualSetupModeCounter (mqttCommunicate s) = manualSetupModeCounter s"
  "movementStartTime (mqttCommunicate s) = movementStartTime s"
  "movementTimeout (mqttCommunicate s) = movementTimeout s"
  "movementL1 (mqttCommunicate s) = movementL1 s"
  "movementProgress (mqttCommunicate s) = movementProgress s"
  "wifiManagerSetupRunning (mqttCommunicate s) = wifiManagerSetupRunning s"
  "offline (mqttCommunicate s) = offline s"
  "mqttConnected (mqttCommunicate s) = mqttConnected s"
  "relayL1 (mqttCommunicate s) = relayL1 s"
  "relayL2 (mqttCommunicate s) = relayL2 s"
  "relayLog (mqttCommunicate s) = relayLog s"
  "configPortalStarts (mqttCommunicate s) = configPortalStarts s"
  by (simp_all add: mqttCommunicate_def)

lemma digitalWrite_fields [simp]:
  "blindMaxPos (digitalWrite p v s) = blindMaxPos s"
  "blindInvertZero (digitalWrite p v s) = blindInvertZero s"
  "blindInvertSwitch (digitalWrite p v s) = blindInvertSwitch s"
  "blindDisableManualLock (digitalWrite p v s) = blindDisableManualLock s"
  "blindPos (digitalWrite p v s) = blindPos s"
  "manualMode (digitalWrite p v s) = manualMode s"
  "manualLocked (digitalWrite p v s) = manualLocked s"
  "manualLockActivatorTime (digitalWrite p v s) = manualLockActivatorTime s"
  "manualLockActivatorSwitch (digitalWrite p v s) = manualLockActivatorSwitch s"
  "manualSetupModeCounter (digitalWrite p v s) = manualSetupModeCounter s"
  "movementStartTime (digitalWrite p v s) = movementStartTime s"
  "movementTimeout (digitalWrite p v s) = movementTimeout s"
  "movementL1 (digitalWrite p v s) = movementL1 s"
  "movementProgress (digitalWrite p v s) = movementProgress s"
  "wifiManagerSetupRunning (digitalWrite p v s) = wifiManagerSetupRunning s"
  "offline (digitalWrite p v s) = offline s"
  "mqttConnected (digitalWrite p v s) = mqttConnected s"
  "published (digitalWrite p v s) = published s"
  "configPortalStarts (digitalWrite p v s) = configPortalStarts s"
  "relayL1 (digitalWrite RELAY_L1 v s) = v"
  "relayL2 (digitalWrite RELAY_L1 v s) = relayL2 s"
  "relayL1 (digitalWrite RELAY_L2 v s) = relayL1 s"
  "relayL2 (digitalWrite RELAY_L2 v s) = v"
  "relayLog (digitalWrite RELAY_L1 v s) = relayLog s @ [(v, relayL2 s)]"
  "relayLog (digitalWrite RELAY_L2 v s) = relayLog s @ [(relayL1 s, v)]"
  by (simp_all add: digitalWrite_def split: pin.split)

lemma updateBlindPos_fields [simp]:
  "blindMaxPos (updateBlindPos now s) = blindMaxPos s"
  "blindInvertZero (updateBlindPos now s) = blindInvertZero s"
  "blindInvertSwitch (updateBlindPos now s) = blindInvertSwitch s"
  "blindDisableManualLock (updateBlindPos now s) = blindDisableManualLock s"
  "manualMode (updateBlindPos now s) = manualMode s"
  "manualLocked (updateBlindPos now s) = manualLocked s"
  "manualLockActivatorTime (updateBlindPos now s) = manualLockActivatorTime s"
  "manualLockActivatorSwitch (updateBlindPos now s) = manualLockActivatorSwitch s"
  "manualSetupModeCounter (updateBlindPos now s) = manualSetupModeCounter s"
  "movementStartTime (updateBlindPos now s) = movementStartTime s"
  "movementTimeout (updateBlindPos now s) = movementTimeout s"
  "movementL1 (updateBlindPos now s) = movementL1 s"
  "movementProgress (updateBlindPos now s) = movementProgress s"
  "wifiManagerSetupRunning (updateBlindPos now s) = wifiManagerSetupRunning s"
  "offline (updateBlindPos now s) = offline s"
  "mqttConnected (updateBlindPos now s) = mqttConnected s"
  "relayL1 (updateBlindPos now s) = relayL1 s"
  "relayL2 (updateBlindPos now s) = relayL2 s"
  "relayLog (updateBlindPos now s) = relayLog s"
  "configPortalStarts (updateBlindPos now s) = configPortalStarts s"
  by (simp_all add: updateBlindPos_def Let_def)

lemma stopL1_fields [simp]:
  "blindMaxPos (stopL1 now s) = blindMaxPos s"
  "blindInvertZero (stopL1 now s) = blindInvertZero s"
  "blindInvertSwitch (stopL1 now s) = blindInvertSwitch s"
  "blindDisableManualLock (stopL1 now s) = blindDisableManualLock s"
  "manualMode (stopL1 now s) = manualMode s"
  "manualLocked (stopL1 now s) = manualLocked s"
  "manualLockActivatorTime (stopL1 now s) = manualLockActivatorTime s"
  "manualLockActivatorSwitch (stopL1 now s) = manualLockActivatorSwitch s"
  "manualSetupModeCounter (stopL1 now s) = manualSetupModeCounter s"
  "movementStartTime (stopL1 now s) = movementStartTime s"
  "movementTimeout (stopL1 now s) = movementTimeout s"
  "movementL1 (stopL1 now s) = movementL1 s"
  "movementProgress (stopL1 now s) = (movementProgress s \<and> \<not> movementL1 s)"
  "wifiManagerSetupRunning (stopL1 now s) = wifiManagerSetupRunning s"
  "offline (stopL1 now s) = offline s"
  "mqttConnected (stopL1 now s) = mqttConnected s"
  "relayL1 (stopL1 now s) = False"
  "relayL2 (stopL1 now s) = relayL2 s"
  "relayLog (stopL1 now s) = relayLog s @ [(False, relayL2 s)]"
  "configPortalStarts (stopL1 now s) = configPortalStarts s"
  by (auto simp add: stopL1_def Let_def)

lemma stopL2_fields [simp]:
  "blindMaxPos (stopL2 now s) = blindMaxPos s"
  "blindInvertZero (stopL2 now s) = blindInvertZero s"
  "blindInvertSwitch (stopL2 now s) = blindInvertSwitch s"
  "blindDisableManualLock (stopL2 now s) = blindDisableManualLock s"
  "manualMode (stopL2 now s) = manualMode s"
  "manualLocked (stopL2 now s) = manualLocked s"
  "manualLockActivatorTime (stopL2 now s) = manualLockActivatorTime s"
  "manualLockActivatorSwitch (stopL2 now s) = manualLockActivatorSwitch s"
  "manualSetupModeCounter (stopL2 now s) = manualSetupModeCounter s"
  "movementStartTime (stopL2 now s) = movementStartTime s"
  "movementTimeout (stopL2 now s) = movementTimeout s"
  "movementL1 (stopL2 now s) = movementL1 s"
  "movementProgress (stopL2 now s) = (movementProgress s \<and> movementL1 s)"
  "wifiManagerSetupRunning (stopL2 now s) = wifiManagerSetupRunning s"
  "offline (stopL2 now s) = offline s"
  "mqttConnected (stopL2 now s) = mqttConnected s"
  "relayL1 (stopL2 now s) = relayL1 s"
  "relayL2 (stopL2 now s) = False"
  "relayLog (stopL2 now s) = relayLog s @ [(relayL1 s, False)]"
  "configPortalStarts (stopL2 now s) = configPortalStarts s"
  by (auto simp add: stopL2_def Let_def)

lemma startL1_fields [simp]:
  "blindMaxPos (startL1 now t s) = blindMaxPos s"
  "blindInvertZero (startL1 now t s) = blindInvertZero s"
  "blindInvertSwitch (startL1 now t s) = blindInvertSwitch s"
  "blindDisableManualLock (startL1 now t s) = blindDisableManualLock s"
  "blindPos (startL1 now t s) = blindPos (stopL2 now s)"
  "published (startL1 now t s) = published (stopL2 now s)"
  "manualMode (startL1 now t s) = manualMode s"
  "manualLocked (startL1 now t s) = manualLocked s"
  "manualLockActivatorTime (startL1 now t s) = manualLockActivatorTime s"
  "manualLockActivatorSwitch (startL1 now t s) = manualLockActivatorSwitch s"
  "manualSetupModeCounter (startL1 now t s) = manualSetupModeCounter s"
  "movementStartTime (startL1 now t s) = now"
  "movementTimeout (startL1 now t s) = (if t = 0 then blindMaxPos s else t)"
  "movementL1 (startL1 now t s) = True"
  "movementProgress (startL1 now t s) = True"
  "wifiManagerSetupRunning (startL1 now t s) = wifiManagerSetupRunning s"
  "offline (startL1 now t s) = offline s"
  "mqttConnected (startL1 now t s) = mqttConnected s"
  "relayL1 (startL1 now t s) = True"
  "relayL2 (startL1 now t s) = False"
  "relayLog (startL1 now t s) = relayLog s @ [(relayL1 s, False), (True, False)]"
  "configPortalStarts (startL1 now t s) = configPortalStarts s"
  by (simp_all add: startL1_def Let_def)

lemma startL2_fields [simp]:
  "blindMaxPos (startL2 now t s) = blindMaxPos s"
  "blindInvertZero (startL2 now t s) = blindInvertZero s"
  "blindInvertSwitch (startL2 now t s) = blindInvertSwitch s"
  "blindDisableManualLock (startL2 now t s) = blindDisableManualLock s"
  "blindPos (startL2 now t s) = blindPos (stopL1 now s)"
  "published (startL2 now t s) = published (stopL1 now s)"
  "manualMode (startL2 now t s) = manualMode s"
  "manualLocked (startL2 now t s) = manualLocked s"
  "manualLockActivatorTime (startL2 now t s) = manualLockActivatorTime s"
  "manualLockActivatorSwitch (startL2 now t s) = manualLockActivatorSwitch s"
  "manualSetupModeCounter (startL2 now t s) = manualSetupModeCounter s"
  "movementStartTime (startL2 now t s) = now"
  "movementTimeout (startL2 now t s) = (if t = 0 then blindMaxPos s else t)"
  "movementL1 (startL2 now t s) = False"
  "movementProgress (startL2 now t s) = True"
  "wifiManagerSetupRunning (startL2 now t s) = wifiManagerSetupRunning s"
  "offline (startL2 now t s) = offline s"
  "mqttConnected (startL2 now t s) = mqttConnected s"
  "relayL1 (startL2 now t s) = False"
  "relayL2 (startL2 now t s) = True"
  "relayLog (startL2 now t s) = relayLog s @ [(False, relayL2 s), (False, True)]"
  "configPortalStarts (startL2 now t s) = configPortalStarts s"
  by (simp_all add: startL2_def Let_def)

lemma startWifiManager_fields [simp]:
  "blindMaxPos (startWifiManager d s) = blindMaxPos s"
  "blindInvertZero (startWifiManager d s) = blindInvertZero s"
  "blindInvertSwitch (startWifiManager d s) = blindInvertSwitch s"
  "blindDisableManualLock (startWifiManager d s) = blindDisableManualLock s"
  "blindPos (startWifiManager d s) = blindPos s"
  "published (startWifiManager d s) = published s"
  "manualMode (startWifiManager d s) = manualMode s"
  "manualLocked (startWifiManager d s) = manualLocked s"
  "manualLockActivatorTime (startWifiManager d s) = manualLockActivatorTime s"
  "manualLockActivatorSwitch (startWifiManager d s) = manualLockActivatorSwitch s"
  "manualSetupModeCounter (startWifiManager d s) = manualSetupModeCounter s"
  "movementStartTime (startWifiManager d s) = movementStartTime s"
  "movementTimeout (startWifiManager d s) = movementTimeout s"
  "movementL1 (startWifiManager d s) = movementL1 s"
  "movementProgress (startWifiManager d s) = movementProgress s"
  "wifiManagerSetupRunning (startWifiManager d s) = wifiManagerSetupRunning s"
  "offline (startWifiManager d s) = offline s"
  "mqttConnected (startWifiManager d s) = mqttConnected s"
  "relayL1 (startWifiManager d s) = relayL1 s"
  "relayL2 (startWifiManager d s) = relayL2 s"
  "relayLog (startWifiManager d s) = relayLog s"
  by (simp_all add: startWifiManager_def)


subsection \<open>The relay invariant\<close>

lemma relay_ok_mqttCommunicate [simp]: "relay_ok (mqttCommunicate s) = relay_ok s"
  by (simp add: relay_ok_def)

lemma relay_ok_updateBlindPos [simp]: "relay_ok (updateBlindPos now s) = relay_ok s"
  by (simp add: relay_ok_def)

lemma relay_ok_stopL1: "relay_ok s \<Longrightarrow> relay_ok (stopL1 now s)"
  by (simp add: relay_ok_def)

lemma relay_ok_stopL2: "relay_ok s \<Longrightarrow> relay_ok (stopL2 now s)"
  by (simp add: relay_ok_def)

lemma relay_ok_startL1: "relay_ok s \<Longrightarrow> relay_ok (startL1 now t s)"
  by (simp add: relay_ok_def)

lemma relay_ok_startL2: "relay_ok s \<Longrightarrow> relay_ok (startL2 now t s)"
  by (simp add: relay_ok_def)

lemma relay_ok_startWifiManager [simp]: "relay_ok (startWifiManager d s) = relay_ok s"
  by (simp add: relay_ok_def)

lemma relay_ok_movementLoop: "relay_ok s \<Longrightarrow> relay_ok (movementLoop now s)"
  by (simp add: movementLoop_def relay_ok_stopL1 relay_ok_stopL2)

lemma relay_ok_upd [simp]:
  "relay_ok (s\<lparr>manualSetupModeCounter := c\<rparr>) = relay_ok s"
  "relay_ok (s\<lparr>manualLocked := b\<rparr>) = relay_ok s"
  "relay_ok (s\<lparr>manualMode := b\<rparr>) = relay_ok s"
  "relay_ok (s\<lparr>manualLockActivatorSwitch := c\<rparr>) = relay_ok s"
  "relay_ok (s\<lparr>manualLockActivatorTime := c\<rparr>) = relay_ok s"
  "relay_ok (s\<lparr>offline := b\<rparr>) = relay_ok s"
  "relay_ok (s\<lparr>mqttConnected := b\<rparr>) = relay_ok s"
  "relay_ok (s\<lparr>wifiManagerSetupRunning := b\<rparr>) = relay_ok s"
  by (simp_all add: relay_ok_def)

lemma relay_ok_gpioS1: "relay_ok s \<Longrightarrow> relay_ok (gpioS1 now d s)"
  by (simp add: gpioS1_def Let_def relay_ok_startL1 relay_ok_startL2)

lemma relay_ok_gpioS2: "relay_ok s \<Longrightarrow> relay_ok (gpioS2 now d s)"
  by (simp add: gpioS2_def Let_def relay_ok_startL1 relay_ok_startL2)

lemma relay_ok_gpioReleased: "relay_ok s \<Longrightarrow> relay_ok (gpioReleased now d s)"
  by (simp add: gpioReleased_def Let_def relay_ok_stopL1 relay_ok_stopL2)

lemma relay_ok_gpioLoop: "relay_ok s \<Longrightarrow> relay_ok (gpioLoop now button s1 s2 s)"
  by (simp add: gpioLoop_def Let_def relay_ok_gpioS1 relay_ok_gpioS2 relay_ok_gpioReleased)

lemma relay_ok_autoMoveToPos: "relay_ok s \<Longrightarrow> relay_ok (autoMoveToPos now p s)"
  by (simp add: autoMoveToPos_def Let_def relay_ok_startL1 relay_ok_startL2)

lemma relay_ok_mqttCallback: "relay_ok s \<Longrightarrow> relay_ok (mqttCallback now payload s)"
  by (simp add: mqttCallback_def Let_def relay_ok_autoMoveToPos relay_ok_stopL1 relay_ok_stopL2)

lemma relay_ok_setup_sketch: "relay_ok (setup_sketch m iz isw dml now s1 s2)"
  by (simp add: setup_sketch_def Let_def relay_ok_def power_on_def)

lemma reachable_relay_ok: "reachable s \<Longrightarrow> relay_ok s"
proof (induction rule: reachable.induct)
  case (boot maxPos iz isw dml now s1 s2)
  show ?case by (rule relay_ok_setup_sketch)
next
  case (gpio s now button s1 s2)
  then show ?case by (simp add: relay_ok_gpioLoop)
next
  case (movement s now)
  then show ?case by (simp add: relay_ok_movementLoop)
next
  case (mqtt s now payload)
  then show ?case by (simp add: relay_ok_mqttCallback)
next
  case (link s off con)
  then show ?case by simp
next
  case (portal s)
  then show ?case by (simp add: wifiManagerSetupStarted_def)
qed


subsection \<open>The position invariant\<close>

lemma sint32: "sint (w::32 word) = (if uint w < 2147483648 then uint w else uint w - 4294967296)"
proof -
  have b: "uint w < 4294967296" using uint_lt2p [of w] by simp
  have z: "0 \<le> uint w" by simp
  show ?thesis
  proof (cases "uint w < 2147483648")
    case True
    then show ?thesis using z
      by (simp add: sint_uint signed_take_bit_eq_take_bit_shift take_bit_eq_mod)
  next
    case False
    have "(uint w + 2147483648) mod 4294967296 = (uint w - 2147483648) mod 4294967296"
      using mod_add_self2 [of "uint w - 2147483648" 4294967296] by (simp add: add.commute)
    also have "\<dots> = uint w - 2147483648"
      using False b by (intro mod_pos_pos_trivial) simp_all
    finally show ?thesis using False
      by (simp add: sint_uint signed_take_bit_eq_take_bit_shift take_bit_eq_mod)
  qed
qed

lemma sint_nonneg_uint: "0 \<le> sint (w::32 word) \<Longrightarrow> sint w = uint w"
  using uint_lt2p [of w] by (simp add: sint32 split: if_splits)

lemma clamp_in_range:
  fixes p m :: "32 word"
  defines "c \<equiv> (if sint p < 0 then 0 else if m < p then m else p)"
  shows "0 \<le> sint c \<and> sint c \<le> uint m"
proof (cases "sint p < 0")
  case True
  then show ?thesis by (simp add: c_def)
next
  case nn: False
  then have e: "sint p = uint p" by (simp add: sint_nonneg_uint)
  show ?thesis
  proof (cases "m < p")
    case True
    then have "uint m < uint p" by (simp add: word_less_def)
    with e nn have "uint m < 2147483648" using sint_lt [of p] by simp
    then have "sint m = uint m" by (simp add: sint32)
    with True nn show ?thesis by (simp add: c_def)
  next
    case False
    then have "uint p \<le> uint m" by (simp add: word_less_def)
    with False nn e show ?thesis by (simp add: c_def)
  qed
qed

lemma status_ok_current:
  assumes "pos_ok s"
  shows "status_ok (blindMaxPos s)
           (ltoa (sint (blindPos s) sdiv 1000) @ (if manualMode s then ''.'' else []))"
proof -
  let ?k = "sint (blindPos s)"
  from assms have k: "0 \<le> ?k" "?k \<le> uint (blindMaxPos s)" by (simp_all add: pos_ok_def)
  have d: "?k sdiv 1000 = ?k div 1000"
    using k(1) by (cases "?k = 0") (simp_all add: signed_divide_int_def)
  have "0 \<le> ?k div 1000" using k(1) by simp
  moreover have "?k div 1000 \<le> uint (blindMaxPos s) div 1000"
    using k(2) by (simp add: zdiv_mono1)
  ultimately have "?k sdiv 1000 \<in> {0 .. uint (blindMaxPos s) div 1000}"
    using d by simp
  then show ?thesis unfolding status_ok_def by (intro bexI [of _ "?k sdiv 1000"]) simp_all
qed

lemma pos_inv_mqttCommunicate: "pos_inv s \<Longrightarrow> pos_inv (mqttCommunicate s)"
  using status_ok_current [of s] by (simp add: pos_inv_def mqttCommunicate_def pos_ok_def)

lemma pos_inv_updateBlindPos:
  assumes "pos_inv s"
  shows "pos_inv (updateBlindPos now s)"
proof -
  obtain p where u: "updateBlindPos now s =
      mqttCommunicate (s\<lparr>blindPos := (if sint p < 0 then 0
                                       else if blindMaxPos s < p then blindMaxPos s else p)\<rparr>)"
    by (simp add: updateBlindPos_def Let_def)
  have "pos_inv (s\<lparr>blindPos := (if sint p < 0 then 0
                                 else if blindMaxPos s < p then blindMaxPos s else p)\<rparr>)"
    using assms clamp_in_range [of p "blindMaxPos s"] by (simp add: pos_inv_def pos_ok_def)
  then show ?thesis unfolding u by (rule pos_inv_mqttCommunicate)
qed

lemma pos_inv_upd [simp]:
  "pos_inv (s\<lparr>manualSetupModeCounter := c\<rparr>) = pos_inv s"
  "pos_inv (s\<lparr>manualLocked := b\<rparr>) = pos_inv s"
  "pos_inv (s\<lparr>manualMode := b\<rparr>) = pos_inv s"
  "pos_inv (s\<lparr>manualLockActivatorSwitch := c\<rparr>) = pos_inv s"
  "pos_inv (s\<lparr>manualLockActivatorTime := c\<rparr>) = pos_inv s"
  "pos_inv (s\<lparr>offline := b\<rparr>) = pos_inv s"
  "pos_inv (s\<lparr>mqttConnected := b\<rparr>) = pos_inv s"
  "pos_inv (s\<lparr>wifiManagerSetupRunning := b\<rparr>) = pos_inv s"
  "pos_inv (s\<lparr>movementProgress := b\<rparr>) = pos_inv s"
  "pos_inv (s\<lparr>movementL1 := b\<rparr>) = pos_inv s"
  "pos_inv (s\<lparr>movementStartTime := c\<rparr>) = pos_inv s"
  "pos_inv (s\<lparr>movementTimeout := c\<rparr>) = pos_inv s"
  "pos_inv (digitalWrite pn v s) = pos_inv s"
  "pos_inv (startWifiManager d s) = pos_inv s"
  by (simp_all add: pos_inv_def pos_ok_def)

lemma pos_inv_stopL1: "pos_inv s \<Longrightarrow> pos_inv (stopL1 now s)"
  by (simp add: stopL1_def Let_def pos_inv_updateBlindPos)

lemma pos_inv_stopL2: "pos_inv s \<Longrightarrow> pos_inv (stopL2 now s)"
  by (simp add: stopL2_def Let_def pos_inv_updateBlindPos)

lemma pos_inv_startL1: "pos_inv s \<Longrightarrow> pos_inv (startL1 now t s)"
  by (simp add: startL1_def Let_def pos_inv_stopL2)

lemma pos_inv_startL2: "pos_inv s \<Longrightarrow> pos_inv (startL2 now t s)"
  by (simp add: startL2_def Let_def pos_inv_stopL1)

lemma pos_inv_movementLoop: "pos_inv s \<Longrightarrow> pos_inv (movementLoop now s)"
  by (simp add: movementLoop_def pos_inv_stopL1 pos_inv_stopL2)

lemma pos_inv_gpioS1: "pos_inv s \<Longrightarrow> pos_inv (gpioS1 now d s)"
  by (simp add: gpioS1_def Let_def pos_inv_startL1 pos_inv_startL2 pos_inv_mqttCommunicate)

lemma pos_inv_gpioS2: "pos_inv s \<Longrightarrow> pos_inv (gpioS2 now d s)"
  by (simp add: gpioS2_def Let_def pos_inv_startL1 pos_inv_startL2 pos_inv_mqttCommunicate)

lemma pos_inv_gpioReleased: "pos_inv s \<Longrightarrow> pos_inv (gpioReleased now d s)"
  by (simp add: gpioReleased_def Let_def pos_inv_stopL1 pos_inv_stopL2 pos_inv_mqttCommunicate)

lemma pos_inv_gpioLoop: "pos_inv s \<Longrightarrow> pos_inv (gpioLoop now button s1 s2 s)"
  by (simp add: gpioLoop_def Let_def pos_inv_gpioS1 pos_inv_gpioS2 pos_inv_gpioReleased)

lemma pos_inv_autoMoveToPos: "pos_inv s \<Longrightarrow> pos_inv (autoMoveToPos now p s)"
  by (simp add: autoMoveToPos_def Let_def pos_inv_startL1 pos_inv_startL2)

lemma pos_inv_mqttCallback: "pos_inv s \<Longrightarrow> pos_inv (mqttCallback now payload s)"
  by (simp add: mqttCallback_def Let_def pos_inv_autoMoveToPos pos_inv_stopL1 pos_inv_stopL2)

lemma pos_inv_setup_sketch: "pos_inv (setup_sketch m iz isw dml now s1 s2)"
proof -
  have "pos_inv ((power_on m iz isw dml)\<lparr>manualLocked := s1 \<or> s2, manualSetupModeCounter := 0\<rparr>)"
    by (simp add: pos_inv_def pos_ok_def power_on_def)
  then show ?thesis
    by (simp add: setup_sketch_def Let_def pos_inv_stopL1 pos_inv_stopL2)
qed

lemma reachable_pos_inv: "reachable s \<Longrightarrow> pos_inv s"
proof (induction rule: reachable.induct)
  case (boot maxPos iz isw dml now s1 s2)
  show ?case by (rule pos_inv_setup_sketch)
next
  case (gpio s now button s1 s2)
  then show ?case by (simp add: pos_inv_gpioLoop)
next
  case (movement s now)
  then show ?case by (simp add: pos_inv_movementLoop)
next
  case (mqtt s now payload)
  then show ?case by (simp add: pos_inv_mqttCallback)
next
  case (link s off con)
  then show ?case by simp
next
  case (portal s)
  then show ?case by (simp add: wifiManagerSetupStarted_def)
qed


subsection \<open>The example runs\<close>

lemma reachable_boot_online: "reachable boot_online"
  unfolding boot_online_def by (intro reachable.intros)


subsection \<open>The tap counter and the recorded switch\<close>

lemma counter_inv_frame [simp]:
  "counter_inv (mqttCommunicate s) = counter_inv s"
  "counter_inv (updateBlindPos now s) = counter_inv s"
  "counter_inv (stopL1 now s) = counter_inv s"
  "counter_inv (stopL2 now s) = counter_inv s"
  "counter_inv (startL1 now t s) = counter_inv s"
  "counter_inv (startL2 now t s) = counter_inv s"
  "counter_inv (startWifiManager d s) = counter_inv s"
  "counter_inv (wifiManagerSetupStarted s) = counter_inv s"
  "counter_inv (s\<lparr>offline := off, mqttConnected := con\<rparr>) = counter_inv s"
  by (simp_all add: counter_inv_def wifiManagerSetupStarted_def)

lemma counter_inv_movementLoop: "counter_inv (movementLoop now s) = counter_inv s"
  by (simp add: movementLoop_def)

lemma counter_inv_autoMoveToPos: "counter_inv (autoMoveToPos now p s) = counter_inv s"
  by (simp add: autoMoveToPos_def Let_def)

lemma counter_inv_mqttCallback: "counter_inv (mqttCallback now payload s) = counter_inv s"
  by (simp add: mqttCallback_def Let_def counter_inv_autoMoveToPos)

lemma counter_inv_gpioS1: "counter_inv s \<Longrightarrow> counter_inv (gpioS1 now d s)"
  by (auto simp add: gpioS1_def Let_def counter_inv_def SWITCH_S1_def SWITCH_S2_def)

lemma counter_inv_gpioS2: "counter_inv s \<Longrightarrow> counter_inv (gpioS2 now d s)"
  by (auto simp add: gpioS2_def Let_def counter_inv_def SWITCH_S1_def SWITCH_S2_def)

lemma counter_inv_gpioReleased: "counter_inv s \<Longrightarrow> counter_inv (gpioReleased now d s)"
  by (simp add: gpioReleased_def Let_def counter_inv_def)

lemma counter_inv_gpioLoop: "counter_inv s \<Longrightarrow> counter_inv (gpioLoop now button s1 s2 s)"
  by (simp add: gpioLoop_def Let_def counter_inv_gpioS1 counter_inv_gpioS2
      counter_inv_gpioReleased)

lemma counter_inv_setup_sketch: "counter_inv (setup_sketch m iz isw dml now s1 s2)"
  by (simp add: setup_sketch_def Let_def counter_inv_def power_on_def)

lemma reachable_counter_inv: "reachable s \<Longrightarrow> counter_inv s"
proof (induction rule: reachable.induct)
  case (boot maxPos iz isw dml now s1 s2)
  show ?case by (rule counter_inv_setup_sketch)
next
  case (gpio s now button s1 s2)
  then show ?case by (simp add: counter_inv_gpioLoop)
next
  case (movement s now)
  then show ?case by (simp add: counter_inv_movementLoop)
next
  case (mqtt s now payload)
  then show ?case by (simp add: counter_inv_mqttCallback)
next
  case (link s off con)
  then show ?case by simp
next
  case (portal s)
  then show ?case by simp
qed


subsection \<open>Presses, releases and taps\<close>

lemma press_from_idle_S1:
  assumes "\<not> manualMode s" "\<not> manualLocked s"
  shows "manualMode (gpioS1 now d s)"
    and "manualLockActivatorTime (gpioS1 now d s) =
          (if manualLocked (gpioS1 now d s) then manualLockActivatorTime s else now)"
  using assms by (simp_all add: gpioS1_def Let_def)

lemma press_from_idle_S2:
  assumes "\<not> manualMode s" "\<not> manualLocked s"
  shows "manualMode (gpioS2 now d s)"
    and "manualLockActivatorTime (gpioS2 now d s) =
          (if manualLocked (gpioS2 now d s) then manualLockActivatorTime s else now)"
  using assms by (simp_all add: gpioS2_def Let_def)

lemma gpioS1_lock:
  assumes "\<not> blindDisableManualLock s" "\<not> manualMode s" "\<not> manualLocked s"
    "manualSetupModeCounter s = 1" "manualLockActivatorSwitch s = SWITCH_S1"
    "d < MANUAL_LOCK_MAX_DELAY_MS"
  shows "gpioS1 now d s = mqttCommunicate (s\<lparr>manualLocked := True, manualMode := True\<rparr>)"
  using assms by (simp add: gpioS1_def Let_def)

lemma gpioS2_lock:
  assumes "\<not> blindDisableManualLock s" "\<not> manualMode s" "\<not> manualLocked s"
    "manualSetupModeCounter s = 1" "manualLockActivatorSwitch s = SWITCH_S2"
    "d < MANUAL_LOCK_MAX_DELAY_MS"
  shows "gpioS2 now d s = mqttCommunicate (s\<lparr>manualLocked := True, manualMode := True\<rparr>)"
  using assms by (simp add: gpioS2_def Let_def SWITCH_S1_def SWITCH_S2_def)

lemma gpioS1_idle:
  assumes "\<not> manualMode s" "\<not> manualLocked s"
    "manualSetupModeCounter s = 0 \<or> manualLockActivatorSwitch s = SWITCH_S1"
  shows "manualMode (gpioS1 now d s)"
    and "manualSetupModeCounter (gpioS1 now d s) = manualSetupModeCounter s"
    and "manualLockActivatorSwitch (gpioS1 now d s) = SWITCH_S1"
    and "wifiManagerSetupRunning (gpioS1 now d s) = wifiManagerSetupRunning s"
    and "configPortalStarts (gpioS1 now d s) = configPortalStarts s"
  using assms by (auto simp add: gpioS1_def Let_def)

lemma gpioS2_idle:
  assumes "\<not> manualMode s" "\<not> manualLocked s"
    "manualSetupModeCounter s = 0 \<or> manualLockActivatorSwitch s = SWITCH_S2"
  shows "manualMode (gpioS2 now d s)"
    and "manualSetupModeCounter (gpioS2 now d s) = manualSetupModeCounter s"
    and "manualLockActivatorSwitch (gpioS2 now d s) = SWITCH_S2"
    and "wifiManagerSetupRunning (gpioS2 now d s) = wifiManagerSetupRunning s"
    and "configPortalStarts (gpioS2 now d s) = configPortalStarts s"
  using assms by (auto simp add: gpioS2_def Let_def SWITCH_S1_def SWITCH_S2_def)

lemma gpioReleased_manual:
  assumes "manualMode s" "d < MANUAL_LOCK_MAX_DELAY_MS"
  shows "manualSetupModeCounter (gpioReleased now d s) = manualSetupModeCounter s + 1"
    and "\<not> manualMode (gpioReleased now d s)"
    and "\<not> manualLocked (gpioReleased now d s)"
    and "manualLockActivatorSwitch (gpioReleased now d s) = manualLockActivatorSwitch s"
    and "wifiManagerSetupRunning (gpioReleased now d s) = wifiManagerSetupRunning s"
    and "configPortalStarts (gpioReleased now d s) =
           configPortalStarts s
           + (if manualSetupModeCounter s + 1 = 5 \<and> \<not> wifiManagerSetupRunning s
              then 1 else 0)"
  using assms
  by (simp_all add: gpioReleased_def Let_def startWifiManager_def MANUAL_SETUP_COUNTER_def)

lemma gpioLoop_released:
  "MANUAL_LOCK_MIN_DELAY_MS < now - manualLockActivatorTime s \<Longrightarrow>
   gpioLoop now False False False s = gpioReleased now (now - manualLockActivatorTime s) s"
  by (simp add: gpioLoop_def Let_def)


lemma movementLoop_fields [simp]:
  "blindMaxPos (movementLoop now s) = blindMaxPos s"
  "blindInvertZero (movementLoop now s) = blindInvertZero s"
  "blindInvertSwitch (movementLoop now s) = blindInvertSwitch s"
  "blindDisableManualLock (movementLoop now s) = blindDisableManualLock s"
  "manualMode (movementLoop now s) = manualMode s"
  "manualLocked (movementLoop now s) = manualLocked s"
  "manualLockActivatorTime (movementLoop now s) = manualLockActivatorTime s"
  "manualLockActivatorSwitch (movementLoop now s) = manualLockActivatorSwitch s"
  "manualSetupModeCounter (movementLoop now s) = manualSetupModeCounter s"
  "wifiManagerSetupRunning (movementLoop now s) = wifiManagerSetupRunning s"
  "offline (movementLoop now s) = offline s"
  "mqttConnected (movementLoop now s) = mqttConnected s"
  "configPortalStarts (movementLoop now s) = configPortalStarts s"
  by (simp_all add: movementLoop_def)

lemma reachable_loop_pass: "reachable s \<Longrightarrow> reachable (loop_pass t s1 s2 s)"
  unfolding loop_pass_def by (intro reachable.intros)

lemma reachable_passes: "reachable s \<Longrightarrow> reachable (passes s1 s2 ts s)"
  by (induction ts arbitrary: s) (simp_all add: reachable_loop_pass)

lemma reachable_tap: "reachable s \<Longrightarrow> reachable (tap onS1 tp s)"
  by (cases tp) (simp add: reachable_passes reachable_loop_pass)

text \<open>
  While the switch is held, a pass changes neither the tap counter nor the recorded
  time and switch; it may set the lock.
\<close>

lemma held_gpioS1:
  assumes "manualMode s" "manualLockActivatorSwitch s = SWITCH_S1"
  shows "manualMode (gpioS1 now d s)"
    and "manualLockActivatorTime (gpioS1 now d s) = manualLockActivatorTime s"
    and "manualSetupModeCounter (gpioS1 now d s) = manualSetupModeCounter s"
    and "manualLockActivatorSwitch (gpioS1 now d s) = SWITCH_S1"
    and "wifiManagerSetupRunning (gpioS1 now d s) = wifiManagerSetupRunning s"
    and "configPortalStarts (gpioS1 now d s) = configPortalStarts s"
  using assms by (simp_all add: gpioS1_def Let_def)

lemma held_gpioS2:
  assumes "manualMode s" "manualLockActivatorSwitch s = SWITCH_S2"
  shows "manualMode (gpioS2 now d s)"
    and "manualLockActivatorTime (gpioS2 now d s) = manualLockActivatorTime s"
    and "manualSetupModeCounter (gpioS2 now d s) = manualSetupModeCounter s"
    and "manualLockActivatorSwitch (gpioS2 now d s) = SWITCH_S2"
    and "wifiManagerSetupRunning (gpioS2 now d s) = wifiManagerSetupRunning s"
    and "configPortalStarts (gpioS2 now d s) = configPortalStarts s"
  using assms by (simp_all add: gpioS2_def Let_def SWITCH_S1_def SWITCH_S2_def)

lemma held_pass:
  assumes "manualMode s"
    "manualLockActivatorSwitch s = (if onS1 then SWITCH_S1 else SWITCH_S2)"
  shows "manualMode (loop_pass t onS1 (\<not> onS1) s)
    \<and> manualLockActivatorTime (loop_pass t onS1 (\<not> onS1) s) = manualLockActivatorTime s
    \<and> manualSetupModeCounter (loop_pass t onS1 (\<not> onS1) s) = manualSetupModeCounter s
    \<and> manualLockActivatorSwitch (loop_pass t onS1 (\<not> onS1) s) = manualLockActivatorSwitch s
    \<and> wifiManagerSetupRunning (loop_pass t onS1 (\<not> onS1) s) = wifiManagerSetupRunning s
    \<and> configPortalStarts (loop_pass t onS1 (\<not> onS1) s) = configPortalStarts s"
proof (cases onS1)
  case True
  with assms have a: "manualLockActivatorSwitch s = SWITCH_S1" by simp
  from held_gpioS1 [OF assms(1) a] True a assms(1) show ?thesis
    by (simp add: loop_pass_def gpioLoop_def Let_def)
next
  case False
  with assms have a: "manualLockActivatorSwitch s = SWITCH_S2" by simp
  from held_gpioS2 [OF assms(1) a] False a assms(1) show ?thesis
    by (simp add: loop_pass_def gpioLoop_def Let_def)
qed

lemma held_passes:
  assumes "manualMode s"
    "manualLockActivatorSwitch s = (if onS1 then SWITCH_S1 else SWITCH_S2)"
  shows "manualMode (passes onS1 (\<not> onS1) ts s)
    \<and> manualLockActivatorTime (passes onS1 (\<not> onS1) ts s) = manualLockActivatorTime s
    \<and> manualSetupModeCounter (passes onS1 (\<not> onS1) ts s) = manualSetupModeCounter s
    \<and> manualLockActivatorSwitch (passes onS1 (\<not> onS1) ts s) = manualLockActivatorSwitch s
    \<and> wifiManagerSetupRunning (passes onS1 (\<not> onS1) ts s) = wifiManagerSetupRunning s
    \<and> configPortalStarts (passes onS1 (\<not> onS1) ts s) = configPortalStarts s"
  using assms
proof (induction ts arbitrary: s)
  case Nil
  then show ?case by simp
next
  case (Cons t ts)
  note h = held_pass [OF Cons.prems, of t]
  from h Cons.prems(2)
  have "manualMode (loop_pass t onS1 (\<not> onS1) s)"
    "manualLockActivatorSwitch (loop_pass t onS1 (\<not> onS1) s)
       = (if onS1 then SWITCH_S1 else SWITCH_S2)"
    by simp_all
  from Cons.IH [OF this] h show ?case by simp
qed

text \<open>While both switches stay released, a pass changes none of these fields.\<close>

lemma idle_pass:
  assumes "\<not> manualMode s" "\<not> manualLocked s"
  shows "\<not> manualMode (loop_pass t False False s)
    \<and> \<not> manualLocked (loop_pass t False False s)
    \<and> manualLockActivatorTime (loop_pass t False False s) = manualLockActivatorTime s
    \<and> manualSetupModeCounter (loop_pass t False False s) = manualSetupModeCounter s
    \<and> manualLockActivatorSwitch (loop_pass t False False s) = manualLockActivatorSwitch s
    \<and> wifiManagerSetupRunning (loop_pass t False False s) = wifiManagerSetupRunning s
    \<and> configPortalStarts (loop_pass t False False s) = configPortalStarts s"
  using assms by (simp add: loop_pass_def gpioLoop_def gpioReleased_def Let_def)

lemma idle_passes:
  assumes "\<not> manualMode s" "\<not> manualLocked s"
  shows "\<not> manualMode (passes False False ts s)
    \<and> \<not> manualLocked (passes False False ts s)
    \<and> manualLockActivatorTime (passes False False ts s) = manualLockActivatorTime s
    \<and> manualSetupModeCounter (passes False False ts s) = manualSetupModeCounter s
    \<and> manualLockActivatorSwitch (passes False False ts s) = manualLockActivatorSwitch s
    \<and> wifiManagerSetupRunning (passes False False ts s) = wifiManagerSetupRunning s
    \<and> configPortalStarts (passes False False ts s) = configPortalStarts s"
  using assms
proof (induction ts arbitrary: s)
  case Nil
  then show ?case by simp
next
  case (Cons t ts)
  note h = idle_pass [OF Cons.prems, of t]
  then have "\<not> manualMode (loop_pass t False False s)"
    "\<not> manualLocked (loop_pass t False False s)"
    by simp_all
  from Cons.IH [OF this] h show ?case by simp
qed

lemma press_pass:
  assumes "\<not> manualMode s" "\<not> manualLocked s"
    "MANUAL_LOCK_MIN_DELAY_MS < p - manualLockActivatorTime s"
    "manualSetupModeCounter s = 0
     \<or> manualLockActivatorSwitch s = (if onS1 then SWITCH_S1 else SWITCH_S2)"
  shows "manualMode (loop_pass p onS1 (\<not> onS1) s)
    \<and> manualSetupModeCounter (loop_pass p onS1 (\<not> onS1) s) = manualSetupModeCounter s
    \<and> manualLockActivatorSwitch (loop_pass p onS1 (\<not> onS1) s)
        = (if onS1 then SWITCH_S1 else SWITCH_S2)
    \<and> wifiManagerSetupRunning (loop_pass p onS1 (\<not> onS1) s) = wifiManagerSetupRunning s
    \<and> configPortalStarts (loop_pass p onS1 (\<not> onS1) s) = configPortalStarts s"
proof (cases onS1)
  case True
  with assms(4)
  have "manualSetupModeCounter s = 0 \<or> manualLockActivatorSwitch s = SWITCH_S1" by simp
  from gpioS1_idle [OF assms(1,2) this] True assms(3) show ?thesis
    by (simp add: loop_pass_def gpioLoop_def Let_def)
next
  case False
  with assms(4)
  have "manualSetupModeCounter s = 0 \<or> manualLockActivatorSwitch s = SWITCH_S2" by simp
  from gpioS2_idle [OF assms(1,2) this] False assms(3) show ?thesis
    by (simp add: loop_pass_def gpioLoop_def Let_def)
qed

lemma release_pass:
  assumes "manualMode s"
    "MANUAL_LOCK_MIN_DELAY_MS < r - manualLockActivatorTime s"
    "r - manualLockActivatorTime s < MANUAL_LOCK_MAX_DELAY_MS"
  shows "manualSetupModeCounter (loop_pass r False False s) = manualSetupModeCounter s + 1
    \<and> \<not> manualMode (loop_pass r False False s)
    \<and> \<not> manualLocked (loop_pass r False False s)
    \<and> manualLockActivatorSwitch (loop_pass r False False s) = manualLockActivatorSwitch s
    \<and> wifiManagerSetupRunning (loop_pass r False False s) = wifiManagerSetupRunning s
    \<and> configPortalStarts (loop_pass r False False s) =
         configPortalStarts s
         + (if manualSetupModeCounter s + 1 = 5 \<and> \<not> wifiManagerSetupRunning s
            then 1 else 0)"
  using gpioReleased_manual [OF assms(1,3), of r] assms(2)
  by (simp add: loop_pass_def gpioLoop_released)

lemma tap_step:
  assumes "\<not> manualMode s" "\<not> manualLocked s" "quick_tap onS1 tp s"
    "manualSetupModeCounter s = 0
     \<or> manualLockActivatorSwitch s = (if onS1 then SWITCH_S1 else SWITCH_S2)"
  shows "manualSetupModeCounter (tap onS1 tp s) = manualSetupModeCounter s + 1"
    and "\<not> manualMode (tap onS1 tp s)"
    and "\<not> manualLocked (tap onS1 tp s)"
    and "manualLockActivatorSwitch (tap onS1 tp s) = (if onS1 then SWITCH_S1 else SWITCH_S2)"
    and "wifiManagerSetupRunning (tap onS1 tp s) = wifiManagerSetupRunning s"
    and "configPortalStarts (tap onS1 tp s) =
           configPortalStarts s
           + (if manualSetupModeCounter s + 1 = 5 \<and> \<not> wifiManagerSetupRunning s
              then 1 else 0)"
proof -
  obtain p held r idle where tp: "tp = (p, held, r, idle)" by (cases tp)
  define a where "a = loop_pass p onS1 (\<not> onS1) s"
  define b where "b = passes onS1 (\<not> onS1) held a"
  define c where "c = loop_pass r False False b"
  from assms(3) have q: "MANUAL_LOCK_MIN_DELAY_MS < p - manualLockActivatorTime s"
    "MANUAL_LOCK_MIN_DELAY_MS < r - manualLockActivatorTime a"
    "r - manualLockActivatorTime a < MANUAL_LOCK_MAX_DELAY_MS"
    by (simp_all add: tp a_def)
  note fa = press_pass [OF assms(1,2) q(1) assms(4), folded a_def]
  from fa have ma: "manualMode a"
    "manualLockActivatorSwitch a = (if onS1 then SWITCH_S1 else SWITCH_S2)"
    by simp_all
  note fb = held_passes [OF ma, of held, folded b_def]
  from fb q have mb: "manualMode b"
    "MANUAL_LOCK_MIN_DELAY_MS < r - manualLockActivatorTime b"
    "r - manualLockActivatorTime b < MANUAL_LOCK_MAX_DELAY_MS"
    by simp_all
  note fc = release_pass [OF mb, folded c_def]
  from fc have mc: "\<not> manualMode c" "\<not> manualLocked c" by simp_all
  note fd = idle_passes [OF mc, of idle]
  have t: "tap onS1 tp s = passes False False idle c"
    by (simp add: tp a_def b_def c_def)
  show "manualSetupModeCounter (tap onS1 tp s) = manualSetupModeCounter s + 1"
    and "\<not> manualMode (tap onS1 tp s)"
    and "\<not> manualLocked (tap onS1 tp s)"
    and "manualLockActivatorSwitch (tap onS1 tp s) = (if onS1 then SWITCH_S1 else SWITCH_S2)"
    and "wifiManagerSetupRunning (tap onS1 tp s) = wifiManagerSetupRunning s"
    and "configPortalStarts (tap onS1 tp s) =
           configPortalStarts s
           + (if manualSetupModeCounter s + 1 = 5 \<and> \<not> wifiManagerSetupRunning s
              then 1 else 0)"
    unfolding t using fa fb fc fd by simp_all
qed

lemma reachable_run_tap1: "reachable run_tap1"
  unfolding run_tap1_def by (intro reachable_tap reachable_boot_online)

lemma reachable_run_tap1_idle: "reachable run_tap1_idle"
  unfolding run_tap1_idle_def by (intro reachable_passes reachable_run_tap1)

subsection \<open>Arithmetic of an overshooting move\<close>

lemma overshoot_arith:
  fixes q m moved :: "32 word"
  assumes "0 \<le> sint q" "sint q \<le> uint m" "uint m + 1000 < 2147483648"
  shows "uint (m + 1000 - q) = uint m + 1000 - sint q"
    and "0 < sint (m + 1000 - q)"
    and "m + 1000 - q \<noteq> 0"
    and "m + 1000 - q \<le> moved \<Longrightarrow> sint q + uint moved < 2147483648 \<Longrightarrow>
           \<not> sint (q + moved) < 0 \<and> m < q + moved"
proof -
  have q: "sint q = uint q" using assms(1) by (rule sint_nonneg_uint)
  have k: "uint (1000 :: 32 word) = 1000" by simp
  have a: "uint (m + 1000) = uint m + 1000"
    using uint_add_lem [of m 1000] assms(3) k by simp
  have "uint q \<le> uint (m + 1000)" using a q assms(2) by simp
  then have d: "uint (m + 1000 - q) = uint m + 1000 - uint q"
    using uint_sub_lem [of q "m + 1000"] a by simp
  show u: "uint (m + 1000 - q) = uint m + 1000 - sint q" using d q by simp
  have z: "0 \<le> uint q" by simp
  have r: "uint (m + 1000 - q) < 2147483648" "0 < uint (m + 1000 - q)"
    using d q z assms by linarith+
  show "0 < sint (m + 1000 - q)" using r by (simp add: sint32)
  show "m + 1000 - q \<noteq> 0" using r(2) by auto
  show "\<not> sint (q + moved) < 0 \<and> m < q + moved"
    if h: "m + 1000 - q \<le> moved" "sint q + uint moved < 2147483648"
  proof -
    from h(1) have g: "uint m + 1000 - uint q \<le> uint moved"
      using d by (simp add: word_le_def)
    have "uint q + uint moved < 4294967296" using h(2) q by simp
    then have e: "uint (q + moved) = uint q + uint moved"
      using uint_add_lem [of q moved] by simp
    have "uint (q + moved) < 2147483648" using e h(2) q by simp
    then have "sint (q + moved) = uint (q + moved)" by (simp add: sint32)
    moreover have "uint m < uint (q + moved)" using e g by simp
    ultimately show ?thesis by (simp add: word_less_def)
  qed
qed

lemma stop_idle_fields [simp]:
  "\<not> movementProgress s \<Longrightarrow> blindPos (stopL1 now s) = blindPos s"
  "\<not> movementProgress s \<Longrightarrow> published (stopL1 now s) = published s"
  "\<not> movementProgress s \<Longrightarrow> blindPos (stopL2 now s) = blindPos s"
  "\<not> movementProgress s \<Longrightarrow> published (stopL2 now s) = published s"
  by (simp_all add: stopL1_def stopL2_def Let_def)

lemma timeout_stop_blindPos:
  assumes "movementProgress s" "movementL1 s = blindInvertZero s"
  shows "blindPos (stopL2 now (stopL1 now s)) =
           (let p = blindPos s + (now - movementStartTime s)
            in if sint p < 0 then 0 else if blindMaxPos s < p then blindMaxPos s else p)"
  using assms
  by (cases "movementL1 s")
     (simp_all add: stopL1_def stopL2_def Let_def updateBlindPos_def)


subsection \<open>Payloads without a number\<close>

lemma atoi_malformed:
  assumes "malformed_number str"
  shows "atoi str = 0"
proof (cases "dropWhile isspace str")
  case Nil
  show ?thesis unfolding atoi_def Nil by simp
next
  case outer: (Cons c cs)
  show ?thesis
  proof (cases "c = CHR ''-'' \<or> c = CHR ''+''")
    case sign: True
    show ?thesis
    proof (cases cs)
      case Nil
      show ?thesis unfolding atoi_def outer Nil using sign by auto
    next
      case (Cons d ds)
      from assms sign have "digit_val d = None"
        unfolding malformed_number_def outer Cons by simp
      then show ?thesis unfolding atoi_def outer Cons using sign by auto
    qed
  next
    case False
    from assms False have "digit_val c = None"
      unfolding malformed_number_def outer by simp
    then show ?thesis unfolding atoi_def outer using False by simp
  qed
qed


section \<open>The claims\<close>

text \<open>
  C1.  In every reachable state at most one of the two relay pins is high, and the same
  holds for every pair of levels the pins went through on the way: the relay log has an
  entry for each single pin write, so the pair (high, high) never occurred, not even
  between two statements of \<open>startL1\<close> or \<open>startL2\<close>.
\<close>

theorem relays_never_both_energized:
  "reachable s \<Longrightarrow>
     \<not> (relayL1 s \<and> relayL2 s) \<and> list_all (\<lambda>(a, b). \<not> (a \<and> b)) (relayLog s)"
  using reachable_relay_ok [of s] by (simp add: relay_ok_def)

theorem relays_never_both_energized_witness:
  "reachable run_remote
   \<and> relayLog run_remote =
       [(False, False), (False, False), (False, False), (False, True), (False, False),
        (True, False)]
   \<and> \<not> (relayL1 run_remote \<and> relayL2 run_remote)
   \<and> list_all (\<lambda>(a, b). \<not> (a \<and> b)) (relayLog run_remote)"
proof -
  have r: "reachable run_remote"
    unfolding run_remote_def by (intro reachable.intros reachable_boot_online)
  have l: "relayLog run_remote =
       [(False, False), (False, False), (False, False), (False, True), (False, False),
        (True, False)]"
    by code_simp
  from relays_never_both_energized [OF r] r l show ?thesis by simp
qed

text \<open>
  C2.  In every reachable state the position, read as a signed number, lies between 0
  and \<open>blindMaxPos\<close>, and every status message that was published is the decimal form
  of a number of seconds between 0 and \<open>blindMaxPos / 1000\<close>, with or without the dot.
\<close>

theorem position_in_range:
  "reachable s \<Longrightarrow>
     0 \<le> sint (blindPos s) \<and> sint (blindPos s) \<le> uint (blindMaxPos s)
     \<and> list_all (status_ok (blindMaxPos s)) (published s)"
  using reachable_pos_inv [of s] by (simp add: pos_inv_def pos_ok_def)

theorem position_in_range_witness:
  "reachable run_overshoot
   \<and> blindPos run_overshoot = 60000 \<and> blindMaxPos run_overshoot = 60000
   \<and> published run_overshoot = [''60'']
   \<and> 0 \<le> sint (blindPos run_overshoot)
   \<and> sint (blindPos run_overshoot) \<le> uint (blindMaxPos run_overshoot)
   \<and> list_all (status_ok (blindMaxPos run_overshoot)) (published run_overshoot)"
proof -
  have r: "reachable run_overshoot"
    unfolding run_overshoot_def by (intro reachable.intros reachable_boot_online)
  have e: "blindPos run_overshoot = 60000" "blindMaxPos run_overshoot = 60000"
    "published run_overshoot = [''60'']"
    by code_simp+
  from position_in_range [OF r] r e show ?thesis by simp
qed

text \<open>
  C3.  While \<open>manualMode\<close> is set, a command that starts with \<open>mva\<close> or \<open>mvr\<close> leaves
  the whole state as it was: no movement is stopped, no relay pin is written, the
  position is not touched and nothing is published.
\<close>

theorem manual_mode_blocks_move_commands:
  "manualMode s \<Longrightarrow>
   startsWith (cmd_of payload) ''mva'' \<or> startsWith (cmd_of payload) ''mvr'' \<Longrightarrow>
   mqttCallback now payload s = s"
  by (auto simp add: mqttCallback_def startsWith_def autoMoveToPos_def Let_def)

theorem manual_mode_blocks_move_commands_witness:
  "manualMode run_remote \<and> movementProgress run_remote
   \<and> (startsWith (cmd_of ''mva60'') ''mva'' \<or> startsWith (cmd_of ''mva60'') ''mvr'')
   \<and> mqttCallback 6000 ''mva60'' run_remote = run_remote"
proof -
  have m: "manualMode run_remote" "movementProgress run_remote" by code_simp+
  have c: "startsWith (cmd_of ''mva60'') ''mva'' \<or> startsWith (cmd_of ''mva60'') ''mvr''"
    by code_simp
  from manual_mode_blocks_move_commands [OF m(1) c, of 6000] m c show ?thesis by simp
qed

text \<open>
  C9.  \<open>stopL1\<close> called while L1 is not the running direction, and \<open>stopL2\<close> called
  while L2 is not, change neither the movement state (in progress, direction, start,
  timeout) nor the position, and publish nothing.  A second stop of the same direction
  is such a call, whatever the first one did.
\<close>

theorem stop_of_idle_direction_is_noop:
  "(\<not> (movementProgress s \<and> movementL1 s) \<longrightarrow> same_movement (stopL1 now s) s)
   \<and> (\<not> (movementProgress s \<and> \<not> movementL1 s) \<longrightarrow> same_movement (stopL2 now s) s)
   \<and> same_movement (stopL1 now' (stopL1 now s)) (stopL1 now s)
   \<and> same_movement (stopL2 now' (stopL2 now s)) (stopL2 now s)"
  by (simp add: same_movement_def stopL1_def stopL2_def Let_def)

theorem stop_of_idle_direction_is_noop_witness:
  "\<not> (movementProgress run_remote \<and> \<not> movementL1 run_remote)
   \<and> movementProgress run_remote
   \<and> same_movement (stopL2 6000 run_remote) run_remote
   \<and> \<not> (movementProgress run_half \<and> movementL1 run_half)
   \<and> same_movement (stopL1 40000 run_half) run_half"
proof -
  have a: "\<not> (movementProgress run_remote \<and> \<not> movementL1 run_remote)"
    "movementProgress run_remote" "\<not> (movementProgress run_half \<and> movementL1 run_half)"
    by code_simp+
  from stop_of_idle_direction_is_noop [of run_remote 6000 6000]
    stop_of_idle_direction_is_noop [of run_half 40000 40000] a
  show ?thesis by simp
qed

text \<open>
  C5, as stated, fails.  In \<open>run_half\<close> the blind rests at 30000.  The command
  \<open>mvaxyz\<close> has no number in it, parses to 0 and is therefore a move to position 0:
  relay L1 is energized for 30000 ms and the position ends at 0.
\<close>

theorem malformed_payload_is_noop_counterexample:
  "malformed_number (drop 3 (cmd_of ''mvaxyz''))
   \<and> blindPos run_half = 30000 \<and> \<not> movementProgress run_half \<and> \<not> manualMode run_half
   \<and> movementProgress (mqttCallback 40000 ''mvaxyz'' run_half)
   \<and> relayL1 (mqttCallback 40000 ''mvaxyz'' run_half)
   \<and> movementTimeout (mqttCallback 40000 ''mvaxyz'' run_half) = 30000
   \<and> blindPos (movementLoop 70000 (mqttCallback 40000 ''mvaxyz'' run_half)) = 0"
proof -
  have "malformed_number (drop 3 (cmd_of ''mvaxyz''))" by code_simp
  moreover have "blindPos run_half = 30000" by code_simp
  moreover have "\<not> movementProgress run_half" by code_simp
  moreover have "\<not> manualMode run_half" by code_simp
  moreover have "movementProgress (mqttCallback 40000 ''mvaxyz'' run_half)" by code_simp
  moreover have "relayL1 (mqttCallback 40000 ''mvaxyz'' run_half)" by code_simp
  moreover have "movementTimeout (mqttCallback 40000 ''mvaxyz'' run_half) = 30000"
    by code_simp
  moreover have "blindPos (movementLoop 70000 (mqttCallback 40000 ''mvaxyz'' run_half)) = 0"
    by code_simp
  ultimately show ?thesis by simp
qed


text \<open>
  C5, amended.  A move command whose numeric payload has no number in it parses to 0.
  For \<open>mvr\<close> that starts no movement: the command does what every move command does
  first, stopping a movement in progress unless in manual mode, and nothing else.  For
  \<open>mva\<close> it is a move to absolute position 0.  For every payload, with a number in range
  or out of range or with none, the position stays between 0 and \<open>blindMaxPos\<close>.
\<close>

theorem malformed_payload_parses_to_zero:
  "(malformed_number (drop 3 (cmd_of payload)) \<longrightarrow>
      atoi (drop 3 (cmd_of payload)) = 0
      \<and> (startsWith (cmd_of payload) ''mvr'' \<longrightarrow>
           mqttCallback now payload s =
             (if movementProgress s \<and> \<not> manualMode s then stopL2 now (stopL1 now s) else s))
      \<and> (startsWith (cmd_of payload) ''mva'' \<longrightarrow>
           mqttCallback now payload s =
             autoMoveToPos now 0
               (if movementProgress s \<and> \<not> manualMode s then stopL2 now (stopL1 now s)
                else s)))
   \<and> (reachable s \<longrightarrow>
         0 \<le> sint (blindPos (mqttCallback now payload s))
         \<and> sint (blindPos (mqttCallback now payload s)) \<le> uint (blindMaxPos s))"
proof -
  have z: "atoi (drop 3 (cmd_of payload)) = 0"
    if "malformed_number (drop 3 (cmd_of payload))"
    using that by (rule atoi_malformed)
  have a: "mqttCallback now payload s =
           (if movementProgress s \<and> \<not> manualMode s then stopL2 now (stopL1 now s) else s)"
    if "malformed_number (drop 3 (cmd_of payload))" "startsWith (cmd_of payload) ''mvr''"
    using that(2) z [OF that(1)]
    by (auto simp add: mqttCallback_def startsWith_def Let_def autoMoveToPos_def)
  have b: "mqttCallback now payload s =
           autoMoveToPos now 0
             (if movementProgress s \<and> \<not> manualMode s then stopL2 now (stopL1 now s) else s)"
    if "malformed_number (drop 3 (cmd_of payload))" "startsWith (cmd_of payload) ''mva''"
    using that(2) z [OF that(1)]
    by (auto simp add: mqttCallback_def startsWith_def Let_def)
  have c: "0 \<le> sint (blindPos (mqttCallback now payload s))
         \<and> sint (blindPos (mqttCallback now payload s)) \<le> uint (blindMaxPos s)"
    if "reachable s"
  proof -
    have "pos_inv (mqttCallback now payload s)"
      using reachable_pos_inv [OF that] by (rule pos_inv_mqttCallback)
    moreover have "blindMaxPos (mqttCallback now payload s) = blindMaxPos s"
      by (simp add: mqttCallback_def Let_def autoMoveToPos_def)
    ultimately show ?thesis by (simp add: pos_inv_def pos_ok_def)
  qed
  from z a b c show ?thesis by blast
qed

theorem malformed_payload_parses_to_zero_witness:
  "malformed_number (drop 3 (cmd_of ''mvrxyz''))
   \<and> atoi (drop 3 (cmd_of ''mvrxyz'')) = 0
   \<and> startsWith (cmd_of ''mvrxyz'') ''mvr''
   \<and> mqttCallback 40000 ''mvrxyz'' run_half = run_half
   \<and> reachable run_half
   \<and> 0 \<le> sint (blindPos (mqttCallback 40000 ''mva999999'' run_half))
   \<and> sint (blindPos (mqttCallback 40000 ''mva999999'' run_half)) \<le> uint (blindMaxPos run_half)"
proof -
  have m: "malformed_number (drop 3 (cmd_of ''mvrxyz''))" by code_simp
  have p: "startsWith (cmd_of ''mvrxyz'') ''mvr''" by code_simp
  have i: "\<not> movementProgress run_half" by code_simp
  have r: "reachable run_half"
    unfolding run_half_def by (intro reachable.intros reachable_boot_online)
  from malformed_payload_parses_to_zero [of "''mvrxyz''" 40000 run_half]
    malformed_payload_parses_to_zero [of "''mva999999''" 40000 run_half] m p i r
  show ?thesis by simp
qed

text \<open>
  C7.  In a reachable state outside manual mode, with \<open>blindMaxPos + 1000\<close> within the
  range of a \<open>long\<close>, a command \<open>mva\<close> whose target is \<open>blindMaxPos + 1000\<close> energizes the
  relay that increases the position (L2, or L1 when \<open>blindInvertZero\<close> is set), starting
  now, with a timeout of \<open>blindMaxPos - position + 1000\<close>, where the position is the one
  the command left (the estimate as it was, unless a movement in progress was stopped
  first).  Until that time has passed, the movement loop leaves the state alone.  Once
  it has, the movement loop stops the relay and the position is exactly
  \<open>blindMaxPos\<close>, provided the loop runs before the elapsed time would carry the 32-bit
  position past the largest \<open>long\<close>.
\<close>

theorem overshoot_request_ends_at_max:
  assumes r: "reachable s" and nm: "\<not> manualMode s"
    and mx: "uint (blindMaxPos s) + 1000 < 2147483648"
    and pre: "startsWith (cmd_of payload) ''mva''"
    and tgt: "word_of_int (atoi (drop 3 (cmd_of payload))) * 1000 = blindMaxPos s + 1000"
  shows "movementProgress (mqttCallback now payload s)
    \<and> movementL1 (mqttCallback now payload s) = blindInvertZero s
    \<and> relayL1 (mqttCallback now payload s) = blindInvertZero s
    \<and> relayL2 (mqttCallback now payload s) = (\<not> blindInvertZero s)
    \<and> movementStartTime (mqttCallback now payload s) = now
    \<and> uint (movementTimeout (mqttCallback now payload s)) =
        uint (blindMaxPos s) - sint (blindPos (mqttCallback now payload s)) + 1000
    \<and> (\<not> movementProgress s \<longrightarrow> blindPos (mqttCallback now payload s) = blindPos s)
    \<and> (t - now < movementTimeout (mqttCallback now payload s) \<longrightarrow>
        movementLoop t (mqttCallback now payload s) = mqttCallback now payload s)
    \<and> (movementTimeout (mqttCallback now payload s) \<le> t - now
        \<and> sint (blindPos (mqttCallback now payload s)) + uint (t - now) < 2147483648 \<longrightarrow>
        blindPos (movementLoop t (mqttCallback now payload s)) = blindMaxPos s
        \<and> \<not> movementProgress (movementLoop t (mqttCallback now payload s))
        \<and> \<not> relayL1 (movementLoop t (mqttCallback now payload s))
        \<and> \<not> relayL2 (movementLoop t (mqttCallback now payload s)))"
proof -
  define s0 where
    "s0 = (if movementProgress s \<and> \<not> manualMode s then stopL2 now (stopL1 now s) else s)"
  define m where "m = blindMaxPos s"
  define q where "q = blindPos s0"
  define dl where "dl = m + 1000 - q"
  define s1 where "s1 = mqttCallback now payload s"
  have i0: "pos_inv s0"
    using reachable_pos_inv [OF r] by (simp add: s0_def pos_inv_stopL1 pos_inv_stopL2)
  have f0: "blindMaxPos s0 = m" "\<not> manualMode s0" "\<not> movementProgress s0"
    "blindInvertZero s0 = blindInvertZero s"
    using nm by (auto simp add: s0_def m_def)
  have f1: "\<not> movementProgress s \<longrightarrow> s0 = s" by (simp add: s0_def)
  have qr: "0 \<le> sint q" "sint q \<le> uint m"
    using i0 f0(1) by (simp_all add: pos_inv_def pos_ok_def q_def)
  have mx': "uint m + 1000 < 2147483648" using mx by (simp add: m_def)
  note ar = overshoot_arith [OF qr mx']
  have ns: "\<not> startsWith (cmd_of payload) ''set''"
    using pre by (auto simp add: startsWith_def)
  have cb: "s1 = autoMoveToPos now (m + 1000) s0"
    using pre ns tgt by (simp add: s1_def mqttCallback_def Let_def s0_def m_def)
  have e1: "s1 = (if blindInvertZero s then startL1 now dl s0 else startL2 now dl s0)"
    using ar(2) f0 by (simp add: cb autoMoveToPos_def Let_def dl_def q_def)
  have g: "movementProgress s1" "movementL1 s1 = blindInvertZero s"
    "relayL1 s1 = blindInvertZero s" "relayL2 s1 = (\<not> blindInvertZero s)"
    "movementStartTime s1 = now" "movementTimeout s1 = dl" "blindPos s1 = q"
    "blindMaxPos s1 = m" "blindInvertZero s1 = blindInvertZero s"
    using ar(3) f0 by (simp_all add: e1 dl_def q_def)
  have tm: "uint (movementTimeout s1) = uint (blindMaxPos s) - sint (blindPos s1) + 1000"
    using ar(1) g(6,7) by (simp add: dl_def m_def)
  have same: "\<not> movementProgress s \<longrightarrow> blindPos s1 = blindPos s"
    using f1 g(7) by (auto simp add: q_def)
  have before: "t - now < movementTimeout s1 \<longrightarrow> movementLoop t s1 = s1"
    using g(5) by (auto simp add: movementLoop_def)
  have after: "blindPos (movementLoop t s1) = blindMaxPos s
        \<and> \<not> movementProgress (movementLoop t s1)
        \<and> \<not> relayL1 (movementLoop t s1) \<and> \<not> relayL2 (movementLoop t s1)"
    if h: "movementTimeout s1 \<le> t - now" "sint (blindPos s1) + uint (t - now) < 2147483648"
  proof -
    have l: "movementLoop t s1 = stopL2 t (stopL1 t s1)"
      using h(1) g(1,5) by (simp add: movementLoop_def)
    have c: "\<not> sint (q + (t - now)) < 0 \<and> m < q + (t - now)"
      using ar(4) [of "t - now"] h g(6,7) by (simp add: dl_def)
    have "blindPos (stopL2 t (stopL1 t s1)) = m"
      using timeout_stop_blindPos [of s1 t] g c by (simp add: Let_def)
    then show ?thesis unfolding l by (simp add: m_def)
  qed
  show ?thesis
    unfolding s1_def [symmetric] using g(1-5) tm same before after by blast
qed

theorem overshoot_request_ends_at_max_witness:
  "reachable boot_online \<and> \<not> manualMode boot_online
   \<and> uint (blindMaxPos boot_online) + 1000 < 2147483648
   \<and> startsWith (cmd_of ''mva61'') ''mva''
   \<and> word_of_int (atoi (drop 3 (cmd_of ''mva61''))) * 1000 = blindMaxPos boot_online + 1000
   \<and> relayL2 (mqttCallback 1000 ''mva61'' boot_online)
   \<and> movementTimeout (mqttCallback 1000 ''mva61'' boot_online) = 61000
   \<and> movementTimeout (mqttCallback 1000 ''mva61'' boot_online) \<le> 62010 - 1000
   \<and> blindPos (movementLoop 62010 (mqttCallback 1000 ''mva61'' boot_online)) = 60000
   \<and> \<not> relayL2 (movementLoop 62010 (mqttCallback 1000 ''mva61'' boot_online))"
proof -
  have h: "\<not> manualMode boot_online" "uint (blindMaxPos boot_online) + 1000 < 2147483648"
    "startsWith (cmd_of ''mva61'') ''mva''"
    "word_of_int (atoi (drop 3 (cmd_of ''mva61''))) * 1000 = blindMaxPos boot_online + 1000"
    by code_simp+
  have v: "movementTimeout (mqttCallback 1000 ''mva61'' boot_online) = 61000"
    "movementTimeout (mqttCallback 1000 ''mva61'' boot_online) \<le> 62010 - 1000"
    "sint (blindPos (mqttCallback 1000 ''mva61'' boot_online)) + uint (62010 - 1000 :: 32 word)
       < 2147483648"
    "blindMaxPos boot_online = 60000" "\<not> blindInvertZero boot_online"
    by code_simp+
  from overshoot_request_ends_at_max [OF reachable_boot_online h, of 1000 62010]
    reachable_boot_online h v
  show ?thesis by simp
qed

text \<open>
  C10.  Gestures are counted per switch.  In a reachable state, a pass of \<open>gpioLoop\<close>
  beyond the debounce delay that sees a switch asserted which is not the recorded
  activator switch ends with the tap counter at 0 and does not set the lock: neither the
  lock gesture, which needs the counter at 1, nor the count towards five can be carried
  over from the other switch.  (S1 is tested first, so the S2 case is the one in which S1
  is released.)
\<close>

theorem press_on_other_switch_resets_tap_counter:
  assumes "reachable s"
    and "MANUAL_LOCK_MIN_DELAY_MS < now - manualLockActivatorTime s"
  shows "(manualLockActivatorSwitch s \<noteq> SWITCH_S1 \<longrightarrow>
            manualSetupModeCounter (gpioLoop now button True s2 s) = 0
            \<and> manualLocked (gpioLoop now button True s2 s) = manualLocked s)
         \<and> (manualLockActivatorSwitch s \<noteq> SWITCH_S2 \<longrightarrow>
            manualSetupModeCounter (gpioLoop now button False True s) = 0
            \<and> manualLocked (gpioLoop now button False True s) = manualLocked s)"
proof -
  have c: "counter_inv s" using assms(1) by (rule reachable_counter_inv)
  have a: "manualLockActivatorSwitch s \<noteq> SWITCH_S1 \<longrightarrow>
            manualSetupModeCounter (gpioLoop now button True s2 s) = 0
            \<and> manualLocked (gpioLoop now button True s2 s) = manualLocked s"
    using assms(2) by (simp add: gpioLoop_def gpioS1_def Let_def)
  have b: "manualLockActivatorSwitch s \<noteq> SWITCH_S2 \<longrightarrow>
            manualSetupModeCounter (gpioLoop now button False True s) = 0
            \<and> manualLocked (gpioLoop now button False True s) = manualLocked s"
    using assms(2) c by (auto simp add: gpioLoop_def gpioS2_def Let_def counter_inv_def)
  from a b show ?thesis by simp
qed

theorem press_on_other_switch_resets_tap_counter_witness:
  "reachable run_tap1
   \<and> MANUAL_LOCK_MIN_DELAY_MS < 1600 - manualLockActivatorTime run_tap1
   \<and> manualSetupModeCounter run_tap1 = 1
   \<and> manualLockActivatorSwitch run_tap1 \<noteq> SWITCH_S2
   \<and> manualSetupModeCounter (gpioLoop 1600 False False True run_tap1) = 0
   \<and> manualLocked (gpioLoop 1600 False False True run_tap1) = manualLocked run_tap1"
proof -
  have d: "MANUAL_LOCK_MIN_DELAY_MS < 1600 - manualLockActivatorTime run_tap1"
    by code_simp
  have e: "manualSetupModeCounter run_tap1 = 1" "manualLockActivatorSwitch run_tap1 \<noteq> SWITCH_S2"
    by code_simp+
  from press_on_other_switch_resets_tap_counter [OF reachable_run_tap1 d, of False False]
    reachable_run_tap1 d e
  show ?thesis by simp
qed

text \<open>
  C4, as stated, fails.  The run \<open>taps_quick\<close> from boot is five quick taps on S1: the
  fifth release calls \<open>startConfigPortal\<close>, once, and leaves the tap counter at 5, not
  at 0.  The run \<open>taps_held\<close> has every release-to-press gap at 300 ms, under 500 ms, and
  requests nothing: its second press is a lock press, whose release comes 600 ms after
  the first release and resets the counter.
\<close>

theorem five_taps_counter_reset_counterexample:
  "quick_taps True taps_quick boot_online
   \<and> configPortalStarts (taps True taps_quick boot_online) = 1
   \<and> manualSetupModeCounter (taps True taps_quick boot_online) = 5
   \<and> list_all (\<lambda>gap. gap < MANUAL_LOCK_MAX_DELAY_MS)
         (map (\<lambda>((p, held, r, idle), (p', held', r', idle')). p' - r)
            (zip taps_held (tl taps_held)))
   \<and> configPortalStarts (taps True taps_held boot_online) = 0
   \<and> manualSetupModeCounter (taps True taps_held boot_online) = 1"
proof -
  have "quick_taps True taps_quick boot_online" by code_simp
  moreover have "configPortalStarts (taps True taps_quick boot_online) = 1" by code_simp
  moreover have "manualSetupModeCounter (taps True taps_quick boot_online) = 5" by code_simp
  moreover have "list_all (\<lambda>gap. gap < MANUAL_LOCK_MAX_DELAY_MS)
         (map (\<lambda>((p, held, r, idle), (p', held', r', idle')). p' - r)
            (zip taps_held (tl taps_held)))" by code_simp
  moreover have "configPortalStarts (taps True taps_held boot_online) = 0" by code_simp
  moreover have "manualSetupModeCounter (taps True taps_held boot_online) = 1" by code_simp
  ultimately show ?thesis by simp
qed

text \<open>
  C4, amended.  Start with both switches released, the tap counter at 0 and the portal
  not running, and make five quick taps on one switch, the loop polling at any times in
  between: each press and release seen beyond the debounce delay, each release less than
  500 ms after the recorded activator time (the press for a driving press, the previous
  release for a lock press).  Then \<open>startConfigPortal\<close> is called exactly once, at the
  fifth release and not before, and the tap counter is 5 afterwards; a sixth quick tap
  requests nothing more.
\<close>

theorem five_quick_taps_request_setup_once:
  assumes "\<not> manualMode s" and "\<not> manualLocked s"
    and "manualSetupModeCounter s = 0" and "\<not> wifiManagerSetupRunning s"
    and "quick_taps onS1 [tp1, tp2, tp3, tp4, tp5] s"
  shows "configPortalStarts (taps onS1 [tp1, tp2, tp3, tp4] s) = configPortalStarts s
         \<and> configPortalStarts (taps onS1 [tp1, tp2, tp3, tp4, tp5] s)
             = configPortalStarts s + 1
         \<and> manualSetupModeCounter (taps onS1 [tp1, tp2, tp3, tp4, tp5] s) = 5
         \<and> (quick_tap onS1 tp6 (taps onS1 [tp1, tp2, tp3, tp4, tp5] s) \<longrightarrow>
             configPortalStarts (taps onS1 [tp1, tp2, tp3, tp4, tp5, tp6] s)
               = configPortalStarts s + 1)"
proof -
  define t1 where "t1 = tap onS1 tp1 s"
  define t2 where "t2 = tap onS1 tp2 t1"
  define t3 where "t3 = tap onS1 tp3 t2"
  define t4 where "t4 = tap onS1 tp4 t3"
  define t5 where "t5 = tap onS1 tp5 t4"
  from assms(5) have q: "quick_tap onS1 tp1 s" "quick_tap onS1 tp2 t1"
    "quick_tap onS1 tp3 t2" "quick_tap onS1 tp4 t3" "quick_tap onS1 tp5 t4"
    by (simp_all add: t1_def t2_def t3_def t4_def)
  note a1 = tap_step [OF assms(1,2) q(1), folded t1_def, unfolded assms(3), simplified]
  note a2 = tap_step [OF a1(2,3) q(2), folded t2_def, unfolded a1(1,4,5), simplified]
  note a3 = tap_step [OF a2(2,3) q(3), folded t3_def, unfolded a2(1,4,5), simplified]
  note a4 = tap_step [OF a3(2,3) q(4), folded t4_def, unfolded a3(1,4,5), simplified]
  note a5 = tap_step [OF a4(2,3) q(5), folded t5_def, unfolded a4(1,4,5), simplified]
  have e4: "taps onS1 [tp1, tp2, tp3, tp4] s = t4"
    by (simp add: t1_def t2_def t3_def t4_def)
  have e5: "taps onS1 [tp1, tp2, tp3, tp4, tp5] s = t5"
    by (simp add: t1_def t2_def t3_def t4_def t5_def)
  have e6: "taps onS1 [tp1, tp2, tp3, tp4, tp5, tp6] s = tap onS1 tp6 t5"
    by (simp add: t1_def t2_def t3_def t4_def t5_def)
  have c4: "configPortalStarts t4 = configPortalStarts s"
    using a1(6) a2(6) a3(6) a4(6) assms(4) by simp
  have c5: "configPortalStarts t5 = configPortalStarts s + 1"
    using a5(6) c4 assms(4) a1(5) a2(5) a3(5) a4(5) by simp
  have n5: "manualSetupModeCounter t5 = 5" using a5(1) by simp
  have c6: "configPortalStarts (tap onS1 tp6 t5) = configPortalStarts s + 1"
    if "quick_tap onS1 tp6 t5"
    using tap_step(6) [OF a5(2,3) that] a5(4) n5 c5 by simp
  show ?thesis unfolding e4 e5 e6 using c4 c5 n5 c6 by simp
qed

theorem five_quick_taps_request_setup_once_witness:
  "\<not> manualMode boot_online \<and> \<not> manualLocked boot_online
   \<and> manualSetupModeCounter boot_online = 0 \<and> \<not> wifiManagerSetupRunning boot_online
   \<and> quick_taps True taps_quick boot_online
   \<and> configPortalStarts (taps True (butlast taps_quick) boot_online) = 0
   \<and> configPortalStarts (taps True taps_quick boot_online) = 1
   \<and> manualSetupModeCounter (taps True taps_quick boot_online) = 5
   \<and> quick_tap True (tap_at 3850 4150 4450) (taps True taps_quick boot_online)
   \<and> configPortalStarts (taps True (taps_quick @ [tap_at 3850 4150 4450]) boot_online) = 1"
proof -
  have h: "\<not> manualMode boot_online" "\<not> manualLocked boot_online"
    "manualSetupModeCounter boot_online = 0" "\<not> wifiManagerSetupRunning boot_online"
    by code_simp+
  have q: "quick_taps True [tap_at 1000 1300 1600, tap_at 1600 1750 2050,
             tap_at 2050 2350 2650, tap_at 2650 2950 3250, tap_at 3250 3550 3850] boot_online"
    by code_simp
  have q6: "quick_tap True (tap_at 3850 4150 4450)
             (taps True [tap_at 1000 1300 1600, tap_at 1600 1750 2050,
                tap_at 2050 2350 2650, tap_at 2650 2950 3250, tap_at 3250 3550 3850]
                boot_online)"
    by code_simp
  have z: "configPortalStarts boot_online = 0" by code_simp
  from five_quick_taps_request_setup_once [OF h q, of "tap_at 3850 4150 4450"] h q q6 z
  show ?thesis unfolding taps_quick_def by simp
qed

text \<open>
  C6.  The lock gesture is to leave no relay energized, and the header of the sketch
  promises that a pushed switch terminates any running remote command.  The lock branch
  of \<open>gpioLoop\<close> misses that: it sets the two flags and publishes, and stops nothing.
  In \<open>run_tap1_remote\<close>, reached from boot, lock is not disabled, the switch is
  released with the tap counter at 1, and the command \<open>mva60\<close>, accepted since the
  release, has relay L2 running.  S1 pressed again 300 ms after the release
  (\<open>run_tap1_locked\<close>) sets \<open>manualLocked\<close> and \<open>manualMode\<close> and publishes \<open>0.\<close>, with
  relay L2 still energized.  From then on the command \<open>mvr0\<close> is refused and the
  release of the switch does not stop the relay either; the movement loop, before the
  timeout, leaves it on as well.  The same press seen at 2500 ms, too late for a lock,
  is a driving press and does de-energize L2.
\<close>

theorem lock_press_leaves_remote_move_running:
  "reachable run_tap1_remote
   \<and> \<not> blindDisableManualLock run_tap1_remote
   \<and> \<not> manualMode run_tap1_remote \<and> \<not> manualLocked run_tap1_remote
   \<and> manualSetupModeCounter run_tap1_remote = 1
   \<and> manualLockActivatorSwitch run_tap1_remote = SWITCH_S1
   \<and> MANUAL_LOCK_MIN_DELAY_MS < 1600 - manualLockActivatorTime run_tap1_remote
   \<and> 1600 - manualLockActivatorTime run_tap1_remote < MANUAL_LOCK_MAX_DELAY_MS
   \<and> movementProgress run_tap1_remote \<and> relayL2 run_tap1_remote
   \<and> manualLocked run_tap1_locked \<and> manualMode run_tap1_locked
   \<and> published run_tap1_locked = published run_tap1_remote @ [''0.'']
   \<and> movementProgress run_tap1_locked \<and> relayL2 run_tap1_locked
   \<and> mqttCallback 1700 ''mvr0'' run_tap1_locked = run_tap1_locked
   \<and> relayL2 (movementLoop 1800 run_tap1_locked)
   \<and> \<not> manualMode (gpioLoop 1900 False False False run_tap1_locked)
   \<and> relayL2 (gpioLoop 1900 False False False run_tap1_locked)
   \<and> \<not> relayL2 (gpioLoop 2500 False True False run_tap1_remote)"
proof -
  have "reachable run_tap1_remote"
    unfolding run_tap1_remote_def
    by (intro reachable_passes reachable.intros reachable_run_tap1)
  moreover have "\<not> blindDisableManualLock run_tap1_remote" by code_simp
  moreover have "\<not> manualMode run_tap1_remote" by code_simp
  moreover have "\<not> manualLocked run_tap1_remote" by code_simp
  moreover have "manualSetupModeCounter run_tap1_remote = 1" by code_simp
  moreover have "manualLockActivatorSwitch run_tap1_remote = SWITCH_S1" by code_simp
  moreover have "MANUAL_LOCK_MIN_DELAY_MS < 1600 - manualLockActivatorTime run_tap1_remote"
    by code_simp
  moreover have "1600 - manualLockActivatorTime run_tap1_remote < MANUAL_LOCK_MAX_DELAY_MS"
    by code_simp
  moreover have "movementProgress run_tap1_remote" by code_simp
  moreover have "relayL2 run_tap1_remote" by code_simp
  moreover have "manualLocked run_tap1_locked" by code_simp
  moreover have "manualMode run_tap1_locked" by code_simp
  moreover have "published run_tap1_locked = published run_tap1_remote @ [''0.'']"
    by code_simp
  moreover have "movementProgress run_tap1_locked" by code_simp
  moreover have "relayL2 run_tap1_locked" by code_simp
  moreover have "mqttCallback 1700 ''mvr0'' run_tap1_locked = run_tap1_locked"
  proof -
    have "manualMode run_tap1_locked" by code_simp
    moreover have "startsWith (cmd_of ''mvr0'') ''mvr''" by code_simp
    moreover have "\<not> startsWith (cmd_of ''mvr0'') ''set''" by code_simp
    moreover have "\<not> startsWith (cmd_of ''mvr0'') ''mva''" by code_simp
    ultimately show ?thesis
      by (simp add: mqttCallback_def autoMoveToPos_def Let_def)
  qed
  moreover have "relayL2 (movementLoop 1800 run_tap1_locked)" by code_simp
  moreover have "\<not> manualMode (gpioLoop 1900 False False False run_tap1_locked)"
    by code_simp
  moreover have "relayL2 (gpioLoop 1900 False False False run_tap1_locked)" by code_simp
  moreover have "\<not> relayL2 (gpioLoop 2500 False True False run_tap1_remote)" by code_simp
  ultimately show ?thesis by simp
qed

text \<open>
  The same in general: from the released state, a lock press sets the two flags and
  publishes the position with a dot when the MQTT link is up, and it writes no relay
  pin and leaves the movement state as it finds it.  A relay that is energized when
  the press is seen stays energized; none is energized by the press.
\<close>

lemma lock_press_writes_no_pin:
  assumes "\<not> blindDisableManualLock s"
    and "\<not> manualMode s" and "\<not> manualLocked s"
    and "manualSetupModeCounter s = 1"
    and "(s1 \<and> manualLockActivatorSwitch s = SWITCH_S1)
         \<or> (\<not> s1 \<and> s2 \<and> manualLockActivatorSwitch s = SWITCH_S2)"
    and "MANUAL_LOCK_MIN_DELAY_MS < now - manualLockActivatorTime s"
    and "now - manualLockActivatorTime s < MANUAL_LOCK_MAX_DELAY_MS"
  shows "manualLocked (gpioLoop now button s1 s2 s)
         \<and> manualMode (gpioLoop now button s1 s2 s)
         \<and> relayL1 (gpioLoop now button s1 s2 s) = relayL1 s
         \<and> relayL2 (gpioLoop now button s1 s2 s) = relayL2 s
         \<and> relayLog (gpioLoop now button s1 s2 s) = relayLog s
         \<and> movementProgress (gpioLoop now button s1 s2 s) = movementProgress s
         \<and> blindPos (gpioLoop now button s1 s2 s) = blindPos s
         \<and> published (gpioLoop now button s1 s2 s) =
             (if \<not> offline s \<and> mqttConnected s
              then published s @ [ltoa (sint (blindPos s) sdiv 1000) @ ''.'']
              else published s)"
proof -
  define sa where "sa = (if button then startWifiManager True s else s)"
  define d where "d = now - manualLockActivatorTime s"
  have f: "blindDisableManualLock sa = blindDisableManualLock s"
    "manualMode sa = manualMode s" "manualLocked sa = manualLocked s"
    "manualSetupModeCounter sa = manualSetupModeCounter s"
    "manualLockActivatorSwitch sa = manualLockActivatorSwitch s"
    "manualLockActivatorTime sa = manualLockActivatorTime s"
    "relayL1 sa = relayL1 s" "relayL2 sa = relayL2 s" "relayLog sa = relayLog s"
    "movementProgress sa = movementProgress s"
    "blindPos sa = blindPos s" "published sa = published s"
    "offline sa = offline s" "mqttConnected sa = mqttConnected s"
    by (simp_all add: sa_def)
  have l: "gpioLoop now button s1 s2 s =
             (if s1 then gpioS1 now d sa else if s2 then gpioS2 now d sa
              else gpioReleased now d sa)"
    using assms(6) by (simp add: gpioLoop_def Let_def sa_def d_def)
  have g: "gpioLoop now button s1 s2 s =
             mqttCommunicate (sa\<lparr>manualLocked := True, manualMode := True\<rparr>)"
  proof (cases s1)
    case True
    with assms(1-5,7) show ?thesis
      unfolding l by (simp add: gpioS1_lock f d_def)
  next
    case False
    with assms(1-5,7) show ?thesis
      unfolding l by (simp add: gpioS2_lock f d_def)
  qed
  show ?thesis unfolding g by (simp add: mqttCommunicate_def f)
qed

text \<open>
  C8, as stated, fails.  In \<open>run_tap1\<close> the previous release was at 1300 ms and the tap
  counter is 1.  S1 is pressed at 2500 ms, which starts a drive, and released at
  2800 ms: 1500 ms after the previous release, yet the counter goes up to 2, because the
  release came 300 ms after the press.
\<close>

theorem release_within_prior_release_counterexample:
  "manualLockActivatorTime run_tap1_idle = 1300 \<and> manualSetupModeCounter run_tap1_idle = 1
   \<and> \<not> manualMode run_tap1_idle
   \<and> manualMode run_tap1_press \<and> manualLockActivatorTime run_tap1_press = 2500
   \<and> \<not> ((2800 :: ulong) - 1300 < MANUAL_LOCK_MAX_DELAY_MS)
   \<and> manualSetupModeCounter (gpioLoop 2800 False False False run_tap1_press) = 2"
proof -
  have "manualLockActivatorTime run_tap1_idle = 1300" by code_simp
  moreover have "manualSetupModeCounter run_tap1_idle = 1" by code_simp
  moreover have "\<not> manualMode run_tap1_idle" by code_simp
  moreover have "manualMode run_tap1_press" by code_simp
  moreover have "manualLockActivatorTime run_tap1_press = 2500" by code_simp
  moreover have "\<not> ((2800 :: ulong) - 1300 < MANUAL_LOCK_MAX_DELAY_MS)" by code_simp
  moreover have "manualSetupModeCounter (gpioLoop 2800 False False False run_tap1_press) = 2"
    by code_simp
  ultimately show ?thesis by simp
qed

text \<open>
  C8, amended.  A pass of \<open>gpioLoop\<close> beyond the debounce delay that sees both switches
  released while manual mode is on ends manual mode and increments the tap counter
  exactly when it comes less than 500 ms after the recorded activator time; otherwise it
  resets the counter to 0.  The recorded time is then the time of this release.  A
  press seen from the released state records its own time when it starts a drive and
  leaves the recorded time, that of the previous release, when it is a lock press; the
  passes that see the switch still held leave the recorded time as it is.
\<close>

theorem release_counts_on_activator_time:
  "(manualMode s \<and> MANUAL_LOCK_MIN_DELAY_MS < now - manualLockActivatorTime s \<longrightarrow>
      manualSetupModeCounter (gpioLoop now button False False s) =
        (if now - manualLockActivatorTime s < MANUAL_LOCK_MAX_DELAY_MS
         then manualSetupModeCounter s + 1 else 0)
      \<and> \<not> manualMode (gpioLoop now button False False s)
      \<and> manualLockActivatorTime (gpioLoop now button False False s) = now)
   \<and> (\<not> manualMode s \<and> \<not> manualLocked s \<and> (s1 \<or> s2)
        \<and> MANUAL_LOCK_MIN_DELAY_MS < now - manualLockActivatorTime s \<longrightarrow>
      manualMode (gpioLoop now button s1 s2 s)
      \<and> manualLockActivatorTime (gpioLoop now button s1 s2 s) =
          (if manualLocked (gpioLoop now button s1 s2 s)
           then manualLockActivatorTime s else now))
   \<and> (manualMode s \<and> (s1 \<or> s2) \<longrightarrow>
      manualMode (gpioLoop now button s1 s2 s)
      \<and> manualLockActivatorTime (gpioLoop now button s1 s2 s) = manualLockActivatorTime s)"
proof -
  have a: "manualMode s \<and> MANUAL_LOCK_MIN_DELAY_MS < now - manualLockActivatorTime s \<longrightarrow>
      manualSetupModeCounter (gpioLoop now button False False s) =
        (if now - manualLockActivatorTime s < MANUAL_LOCK_MAX_DELAY_MS
         then manualSetupModeCounter s + 1 else 0)
      \<and> \<not> manualMode (gpioLoop now button False False s)
      \<and> manualLockActivatorTime (gpioLoop now button False False s) = now"
    by (simp add: gpioLoop_def gpioReleased_def Let_def)
  have b: "manualMode (gpioLoop now button s1 s2 s)
      \<and> manualLockActivatorTime (gpioLoop now button s1 s2 s) =
          (if manualLocked (gpioLoop now button s1 s2 s)
           then manualLockActivatorTime s else now)"
    if h: "\<not> manualMode s" "\<not> manualLocked s" "s1 \<or> s2"
      "MANUAL_LOCK_MIN_DELAY_MS < now - manualLockActivatorTime s"
  proof (cases s1)
    case True
    with h show ?thesis
      using press_from_idle_S1 [of "if button then startWifiManager True s else s" now]
      by (simp add: gpioLoop_def Let_def)
  next
    case False
    with h show ?thesis
      using press_from_idle_S2 [of "if button then startWifiManager True s else s" now]
      by (simp add: gpioLoop_def Let_def)
  qed
  have c: "manualMode (gpioLoop now button s1 s2 s)
      \<and> manualLockActivatorTime (gpioLoop now button s1 s2 s) = manualLockActivatorTime s"
    if h: "manualMode s" "s1 \<or> s2"
  proof (cases s1)
    case True
    with h(1) show ?thesis by (simp add: gpioLoop_def gpioS1_def Let_def)
  next
    case False
    with h have "s2" by simp
    with False h(1) show ?thesis by (simp add: gpioLoop_def gpioS2_def Let_def)
  qed
  from a b c show ?thesis by blast
qed


theorem release_counts_on_activator_time_witness:
  "manualMode run_tap1_press
   \<and> MANUAL_LOCK_MIN_DELAY_MS < 2800 - manualLockActivatorTime run_tap1_press
   \<and> 2800 - manualLockActivatorTime run_tap1_press < MANUAL_LOCK_MAX_DELAY_MS
   \<and> manualSetupModeCounter run_tap1_press = 1
   \<and> manualSetupModeCounter (gpioLoop 2800 False False False run_tap1_press) = 2
   \<and> \<not> manualMode (gpioLoop 2800 False False False run_tap1_press)
   \<and> \<not> manualMode run_tap1_idle \<and> \<not> manualLocked run_tap1_idle
   \<and> MANUAL_LOCK_MIN_DELAY_MS < 2500 - manualLockActivatorTime run_tap1_idle
   \<and> manualMode (gpioLoop 2500 False True False run_tap1_idle)
   \<and> manualLockActivatorTime (gpioLoop 2500 False True False run_tap1_idle) = 2500
   \<and> manualLockActivatorTime (gpioLoop 2795 False True False run_tap1_press) = 2500"
proof -
  have a: "manualMode run_tap1_press"
    "MANUAL_LOCK_MIN_DELAY_MS < 2800 - manualLockActivatorTime run_tap1_press"
    "2800 - manualLockActivatorTime run_tap1_press < MANUAL_LOCK_MAX_DELAY_MS"
    "manualSetupModeCounter run_tap1_press = 1"
    "manualLockActivatorTime run_tap1_press = 2500"
    by code_simp+
  have b: "\<not> manualMode run_tap1_idle" "\<not> manualLocked run_tap1_idle"
    "MANUAL_LOCK_MIN_DELAY_MS < 2500 - manualLockActivatorTime run_tap1_idle"
    "\<not> manualLocked (gpioLoop 2500 False True False run_tap1_idle)"
    by code_simp+
  from release_counts_on_activator_time [of run_tap1_press 2800 False True False]
    release_counts_on_activator_time [of run_tap1_idle 2500 False True False]
    release_counts_on_activator_time [of run_tap1_press 2795 False True False] a b
  show ?thesis by simp
qed

end
